theory Spec2Isabelle
  imports Complex_Main "HOL-Library.AList"
begin

section \<open>The page of script.js as a state\<close>

text \<open>
  script.js reacts to browser events on one page.  The page is a record: the
  elements the script reads and writes (navigation dots, sections, cards, the
  subtitle, the children it appends to the body), the timer table of the
  browser, the variables captured by the script's closures, and a log of the
  effects that leave the script (scrolling, focus, child removal, uncaught
  exceptions).  Each function of the script is a function on this record; each
  browser event is a step.  A run covers one load of the page: the reload on a
  change of the motion preference starts a new run.  Inline presentation
  styles that no handler reads back (the \<open>cssText\<close> blocks) are left out.
\<close>

subsection \<open>Exceptions\<close>

text \<open>
  A JavaScript exception aborts the running handler and keeps what the handler
  wrote before it: \<open>Throws e s\<close> carries the state at the throw.
\<close>

datatype error = TypeError | NotFoundError

datatype 'a result = Returns 'a | Throws error 'a

fun forEach_result :: "('a \<Rightarrow> 'a result) \<Rightarrow> 'a list \<Rightarrow> 'a list result" where
  "forEach_result f [] = Returns []"
| "forEach_result f (x # xs) =
     (case f x of
        Throws e x' \<Rightarrow> Throws e (x' # xs)
      | Returns x' \<Rightarrow>
          (case forEach_result f xs of
             Returns ys \<Rightarrow> Returns (x' # ys)
           | Throws e ys \<Rightarrow> Throws e (x' # ys)))"

subsection \<open>Elements\<close>

text \<open>A \<open>.nav-dot\<close> element; \<open>data_section\<close> is \<open>getAttribute('data-section')\<close>,
  \<open>None\<close> for JavaScript's null when the attribute is absent; \<open>active\<close> is the
  presence of the class \<open>active\<close>; \<open>dot_listening\<close> says that lines 17-27 have
  attached the click and keydown handlers.\<close>

record dot =
  data_section :: "string option"
  dot_role :: "string option"
  dot_tabindex :: "string option"
  aria_label :: "string option"
  aria_current :: "string option"
  active :: bool
  dot_listening :: bool

text \<open>An element found by \<open>document.getElementById\<close>.\<close>

record section_elem =
  offsetTop :: int
  clientHeight :: int
  sec_tabindex :: "string option"

text \<open>A \<open>.project-card\<close> element with the inline style properties the handlers
  write; the empty string is an unset property.\<close>

record card =
  card_tabindex :: "string option"
  card_role :: "string option"
  transform :: string
  transition :: string
  outline :: string
  outlineOffset :: string
  card_listening :: bool

text \<open>The \<open>.subtitle\<close> element.\<close>

record subtitle_elem =
  textContent :: string
  sub_aria_live :: "string option"

text \<open>An element made by \<open>document.createElement\<close>.\<close>

record elem =
  tag :: string
  elem_text :: string
  className :: string
  attrs :: "(string \<times> string) list"

subsection \<open>Timers, frames, effects\<close>

datatype callback =
    StartTyping
  | TypeWriter
  | RemoveAnnouncement nat
  | RemoveTabindex string
  | UpdateActive

record timer =
  delay :: nat
  repeating :: bool
  callback :: callback

datatype frame_callback = ParallaxUpdate

datatype effect =
    ScrollIntoView string string
  | Focus string
  | RemoveChild nat
  | PreventDefault

record page =
  prefersReducedMotion :: bool
  dots :: "dot list"
  sections :: "(string \<times> section_elem) list"
  cards :: "card list"
  subtitle :: "subtitle_elem option"
  body :: "(nat \<times> elem) list"
  next_node :: nat
  timers :: "nat \<rightharpoonup> timer"
  next_handle :: nat
  frames :: "frame_callback list"
  scrollY :: rat
  backgroundPosition :: "rat option"
  nav_scroll_listener :: bool
  parallax_listener :: bool
  scrollTimeout :: "nat option"
  ticking :: bool
  typing_text :: string
  typing_i :: nat
  typingInterval :: "nat option"
  skipButton :: "nat option"
  skip_listener :: bool
  loaded_listener :: bool
  motion_listener :: bool
  effects :: "effect list"
  uncaught :: "error list"

subsection \<open>Browser primitives\<close>

text \<open>JavaScript's conversion of a possibly null string to a string, as a
  template literal and a \<open>DOMString\<close> argument do it.\<close>

definition js_string :: "string option \<Rightarrow> string" where
  "js_string a = (case a of None \<Rightarrow> ''null'' | Some s \<Rightarrow> s)"

text \<open>\<open>document.getElementById\<close>: the first element in document order whose id
  is the argument; an empty id identifies no element.\<close>

definition getElementById :: "page \<Rightarrow> string option \<Rightarrow> section_elem option" where
  "getElementById p a =
     (let k = js_string a in if k = [] then None else map_of (sections p) k)"

text \<open>\<open>setTimeout\<close> and \<open>setInterval\<close> share one table; handles count up from
  the page's counter.  \<open>clearTimeout\<close> and \<open>clearInterval\<close> of a handle that is
  not pending, or of \<open>undefined\<close>, do nothing.\<close>

definition setTimer :: "callback \<Rightarrow> nat \<Rightarrow> bool \<Rightarrow> page \<Rightarrow> page" where
  "setTimer cb ms rep p =
     p\<lparr>timers := (timers p)(next_handle p \<mapsto> \<lparr>delay = ms, repeating = rep, callback = cb\<rparr>),
       next_handle := Suc (next_handle p)\<rparr>"

definition clearTimer :: "nat option \<Rightarrow> page \<Rightarrow> page" where
  "clearTimer h p = (case h of None \<Rightarrow> p | Some n \<Rightarrow> p\<lparr>timers := (timers p)(n := None)\<rparr>)"

definition appendChild :: "elem \<Rightarrow> page \<Rightarrow> page" where
  "appendChild e p = p\<lparr>body := body p @ [(next_node p, e)], next_node := Suc (next_node p)\<rparr>"

definition log_effect :: "effect \<Rightarrow> page \<Rightarrow> page" where
  "log_effect e p = p\<lparr>effects := effects p @ [e]\<rparr>"

definition is_child :: "nat \<Rightarrow> page \<Rightarrow> bool" where
  "is_child n p = (n \<in> fst ` set (body p))"

definition removeChild :: "nat \<Rightarrow> page \<Rightarrow> page result" where
  "removeChild n p =
     (if is_child n p
      then Returns (log_effect (RemoveChild n) (p\<lparr>body := filter (\<lambda>c. fst c \<noteq> n) (body p)\<rparr>))
      else Throws NotFoundError p)"

text \<open>An uncaught exception ends the handler and is reported; the event loop
  goes on with the state the handler left.\<close>

definition and_then :: "page result \<Rightarrow> (page \<Rightarrow> page result) \<Rightarrow> page result" where
  "and_then r f = (case r of Returns s \<Rightarrow> f s | Throws e s \<Rightarrow> Throws e s)"

definition settle :: "page result \<Rightarrow> page" where
  "settle r = (case r of Returns s \<Rightarrow> s | Throws e s \<Rightarrow> s\<lparr>uncaught := uncaught s @ [e]\<rparr>)"

text \<open>\<open>s.charAt(0).toUpperCase() + s.slice(1)\<close> on the letters a to z; other
  characters are kept.\<close>

definition toUpperCase :: "char \<Rightarrow> char" where
  "toUpperCase c =
     (let n = (of_char c :: nat) in if 97 \<le> n \<and> n \<le> 122 then char_of (n - 32) else c)"

fun capitalize :: "string \<Rightarrow> string" where
  "capitalize [] = []"
| "capitalize (c # cs) = toUpperCase c # cs"

section \<open>Accessibility announcer (lines 238-257)\<close>

definition announcement :: "string \<Rightarrow> elem" where
  "announcement message =
     \<lparr>tag = ''div'', elem_text = message, className = [],
      attrs = [(''aria-live'', ''polite''), (''aria-atomic'', ''true'')]\<rparr>"

definition announceToScreenReader :: "string \<Rightarrow> page \<Rightarrow> page" where
  "announceToScreenReader message p =
     setTimer (RemoveAnnouncement (next_node p)) 1000 False (appendChild (announcement message) p)"

section \<open>Section navigator (lines 6-98)\<close>

definition init_dot :: "dot \<Rightarrow> dot result" where
  "init_dot d =
     (let d1 = d\<lparr>dot_role := Some ''button'', dot_tabindex := Some ''0''\<rparr>
      in case data_section d1 of
           None \<Rightarrow> Throws TypeError d1
         | Some sectionId \<Rightarrow>
             Returns (d1\<lparr>aria_label := Some (''Navigate to '' @ capitalize sectionId @ '' section''),
                         dot_listening := True\<rparr>))"

definition set_sec_tabindex :: "string \<Rightarrow> string option \<Rightarrow> page \<Rightarrow> page" where
  "set_sec_tabindex k v p =
     (case map_of (sections p) k of
        None \<Rightarrow> p
      | Some s \<Rightarrow> p\<lparr>sections := AList.update k (s\<lparr>sec_tabindex := v\<rparr>) (sections p)\<rparr>)"

definition navigateToSection :: "dot \<Rightarrow> page \<Rightarrow> page" where
  "navigateToSection element p =
     (let sectionId = data_section element
      in case getElementById p sectionId of
           None \<Rightarrow> p
         | Some sec \<Rightarrow>
             (let k = js_string sectionId;
                  p1 = announceToScreenReader (''Navigating to '' @ k @ '' section'') p;
                  p2 = log_effect
                         (ScrollIntoView k (if prefersReducedMotion p then ''auto'' else ''smooth'')) p1;
                  p3 = set_sec_tabindex k (Some ''-1'') p2;
                  p4 = log_effect (Focus k) p3
              in setTimer (RemoveTabindex k) 100 False p4))"

definition section_ids :: "string list" where
  "section_ids = [''header'', ''about'', ''skills'', ''projects'', ''experience'']"

definition visit_section :: "page \<Rightarrow> string \<Rightarrow> string \<Rightarrow> string" where
  "visit_section p sectionId current =
     (case getElementById p (Some sectionId) of
        None \<Rightarrow> current
      | Some sec \<Rightarrow> if scrollY p \<ge> of_int (offsetTop sec) - 200 then sectionId else current)"

definition current_section :: "page \<Rightarrow> string" where
  "current_section p = fold (visit_section p) section_ids []"

definition update_dot :: "string \<Rightarrow> dot \<Rightarrow> dot result" where
  "update_dot current d =
     (let isActive = (data_section d = Some current);
          d1 = d\<lparr>active := isActive, aria_current := Some (if isActive then ''true'' else ''false'')\<rparr>
      in case data_section d1 of
           None \<Rightarrow> Throws TypeError d1
         | Some sectionName \<Rightarrow>
             Returns (d1\<lparr>aria_label := Some
               (if isActive then ''Current section: '' @ capitalize sectionName
                else ''Navigate to '' @ capitalize sectionName @ '' section'')\<rparr>))"

definition updateActiveNavigation :: "page \<Rightarrow> page result" where
  "updateActiveNavigation p =
     (case forEach_result (update_dot (current_section p)) (dots p) of
        Returns ds \<Rightarrow> Returns (p\<lparr>dots := ds\<rparr>)
      | Throws e ds \<Rightarrow> Throws e (p\<lparr>dots := ds\<rparr>))"

section \<open>Card hover responder (lines 101-141)\<close>

text \<open>\<open>init_card\<close> is lines 103-108; the four handlers of lines 111-140 take the
  value of \<open>prefersReducedMotion\<close> and the card.\<close>

definition init_card :: "card \<Rightarrow> card" where
  "init_card c =
     (let c1 = (if card_tabindex c = None then c\<lparr>card_tabindex := Some ''0''\<rparr> else c)
      in c1\<lparr>card_role := Some ''article'', card_listening := True\<rparr>)"

definition mouseenter :: "bool \<Rightarrow> card \<Rightarrow> card" where
  "mouseenter reduced c =
     (if \<not> reduced
      then c\<lparr>transform := ''translateY(-10px) rotateX(5deg)'', transition := ''transform 0.3s ease''\<rparr>
      else c)"

definition mouseleave :: "bool \<Rightarrow> card \<Rightarrow> card" where
  "mouseleave reduced c =
     (if \<not> reduced then c\<lparr>transform := ''translateY(0) rotateX(0deg)''\<rparr> else c)"

definition focus_card :: "bool \<Rightarrow> card \<Rightarrow> card" where
  "focus_card reduced c =
     (let c1 = (if \<not> reduced
                then c\<lparr>transform := ''translateY(-10px) rotateX(5deg)'',
                       transition := ''transform 0.3s ease''\<rparr>
                else c)
      in c1\<lparr>outline := ''2px solid #007acc'', outlineOffset := ''2px''\<rparr>)"

definition blur_card :: "bool \<Rightarrow> card \<Rightarrow> card" where
  "blur_card reduced c =
     (let c1 = (if \<not> reduced then c\<lparr>transform := ''translateY(0) rotateX(0deg)''\<rparr> else c)
      in c1\<lparr>outline := ''none''\<rparr>)"

section \<open>Typing presenter (lines 144-215)\<close>

definition skip_button_elem :: elem where
  "skip_button_elem =
     \<lparr>tag = ''button'', elem_text = ''Skip animation'', className = ''skip-animation-btn'',
      attrs = [(''aria-label'', ''Skip typing animation'')]\<rparr>"

definition createSkipAnimationButton :: "page \<Rightarrow> nat \<times> page" where
  "createSkipAnimationButton p = (next_node p, appendChild skip_button_elem p)"

definition removeSkipButton :: "nat option \<Rightarrow> page \<Rightarrow> page result" where
  "removeSkipButton button p =
     (case button of
        None \<Rightarrow> Returns p
      | Some b \<Rightarrow> if is_child b p then removeChild b p else Returns p)"

text \<open>Inside \<open>initTypingEffect\<close> the subtitle exists; \<open>typing_text\<close>, \<open>typing_i\<close>,
  \<open>typingInterval\<close> and \<open>skipButton\<close> are the variables \<open>text\<close>, \<open>i\<close>, \<open>typingInterval\<close>
  and \<open>skipButton\<close> of its closure.  \<open>typeWriter\<close> is lines 159-168, \<open>start_typing\<close> the
  callback of lines 171-173, \<open>skip_click\<close> the click handler of lines 176-181.\<close>

definition update_subtitle :: "(subtitle_elem \<Rightarrow> subtitle_elem) \<Rightarrow> page \<Rightarrow> page" where
  "update_subtitle f p = p\<lparr>subtitle := map_option f (subtitle p)\<rparr>"

definition typeWriter :: "page \<Rightarrow> page result" where
  "typeWriter p =
     (if typing_i p < length (typing_text p)
      then Returns
        ((update_subtitle (\<lambda>s. s\<lparr>textContent := textContent s @ [typing_text p ! typing_i p]\<rparr>) p)
          \<lparr>typing_i := Suc (typing_i p)\<rparr>)
      else and_then (removeSkipButton (skipButton p) (clearTimer (typingInterval p) p))
             (\<lambda>p1. Returns (update_subtitle (\<lambda>s. s\<lparr>sub_aria_live := None\<rparr>) p1)))"

definition start_typing :: "page \<Rightarrow> page" where
  "start_typing p = (setTimer TypeWriter 50 True p)\<lparr>typingInterval := Some (next_handle p)\<rparr>"

definition skip_click :: "page \<Rightarrow> page result" where
  "skip_click p =
     (let p1 = clearTimer (typingInterval p) p;
          p2 = update_subtitle (\<lambda>s. s\<lparr>textContent := typing_text p1\<rparr>) p1
      in and_then (removeSkipButton (skipButton p2) p2)
           (\<lambda>p3. Returns (update_subtitle (\<lambda>s. s\<lparr>sub_aria_live := None\<rparr>) p3)))"

definition initTypingEffect :: "page \<Rightarrow> page" where
  "initTypingEffect p =
     (case subtitle p of
        None \<Rightarrow> p
      | Some sub \<Rightarrow>
          (let text = textContent sub;
               (b, p1) = createSkipAnimationButton p;
               p2 = p1\<lparr>typing_text := text, skipButton := Some b\<rparr>
           in if \<not> prefersReducedMotion p2
              then (let p3 = p2\<lparr>subtitle := Some (sub\<lparr>textContent := [], sub_aria_live := Some ''polite''\<rparr>),
                                typing_i := 0, typingInterval := None\<rparr>;
                        p4 = setTimer StartTyping 1000 False p3
                    in p4\<lparr>skip_listener := True\<rparr>)
              else p2\<lparr>subtitle := Some (sub\<lparr>textContent := text\<rparr>)\<rparr>))"

section \<open>Parallax responder (lines 218-235)\<close>

definition initParallaxEffect :: "page \<Rightarrow> page" where
  "initParallaxEffect p =
     (if prefersReducedMotion p then p else p\<lparr>ticking := False, parallax_listener := True\<rparr>)"

definition parallax_scroll :: "page \<Rightarrow> page" where
  "parallax_scroll p =
     (if \<not> ticking p then p\<lparr>frames := frames p @ [ParallaxUpdate], ticking := True\<rparr> else p)"

text \<open>\<open>center ${speed}px\<close> with \<open>speed = scrolled * 0.5\<close>; the position is held as
  the number \<open>speed\<close>.\<close>

definition parallax_frame :: "page \<Rightarrow> page" where
  "parallax_frame p = p\<lparr>backgroundPosition := Some (scrollY p * (1 / 2)), ticking := False\<rparr>"

section \<open>Start of the page (lines 3-28, 56-65, 101-141, 260-304)\<close>

definition skip_link_elem :: elem where
  "skip_link_elem =
     \<lparr>tag = ''a'', elem_text = ''Skip to main content'', className = ''skip-to-content'',
      attrs = [(''href'', ''#main-content'')]\<rparr>"

definition addSkipToContentLink :: "page \<Rightarrow> page" where
  "addSkipToContentLink p =
     p\<lparr>body := (next_node p, skip_link_elem) # body p, next_node := Suc (next_node p)\<rparr>"

text \<open>The top level of the script: an exception in the loop over the dots ends
  it, and nothing after line 28 is attached.\<close>

definition script_top :: "page \<Rightarrow> page result" where
  "script_top p =
     (case forEach_result init_dot (dots p) of
        Throws e ds \<Rightarrow> Throws e (p\<lparr>dots := ds\<rparr>)
      | Returns ds \<Rightarrow>
          Returns (p\<lparr>dots := ds, nav_scroll_listener := True,
                     cards := map init_card (cards p), loaded_listener := True\<rparr>))"

definition domContentLoaded :: "page \<Rightarrow> page result" where
  "domContentLoaded p =
     and_then (updateActiveNavigation (initParallaxEffect (initTypingEffect (addSkipToContentLink p))))
       (\<lambda>p1. Returns (p1\<lparr>motion_listener := True\<rparr>))"

definition load :: "page \<Rightarrow> page" where
  "load p =
     (let p1 = settle (script_top p)
      in if loaded_listener p1 then settle (domContentLoaded p1) else p1)"

text \<open>The page as the browser hands it to the script: the elements of the
  document, the motion preference (line 3), the scroll offset, nothing pending
  and nothing attached.  A browser's first timer handle is 1.\<close>

definition document :: "bool \<Rightarrow> dot list \<Rightarrow> (string \<times> section_elem) list \<Rightarrow> card list \<Rightarrow>
    subtitle_elem option \<Rightarrow> rat \<Rightarrow> page" where
  "document reduced ds secs cs sub y =
     \<lparr>prefersReducedMotion = reduced, dots = ds, sections = secs, cards = cs, subtitle = sub,
      body = [], next_node = 0, timers = Map.empty, next_handle = 1, frames = [],
      scrollY = y, backgroundPosition = None, nav_scroll_listener = False,
      parallax_listener = False, scrollTimeout = None, ticking = False,
      typing_text = [], typing_i = 0, typingInterval = None, skipButton = None,
      skip_listener = False, loaded_listener = False, motion_listener = False,
      effects = [], uncaught = []\<rparr>"

section \<open>Events\<close>

text \<open>What the browser delivers after the page has loaded: a click or a key press
  on the n-th marker, a scroll to an offset, the firing of the timer with a
  handle, an animation frame, the pointer and focus events of the n-th card, a
  click on the skip button.  An event for which no handler is attached leaves
  the page as it is.  Timers may fire in any order: the model has no clock.
  The blur that \<open>section.focus()\<close> causes on a focused card is an event of its
  own, \<open>Blur_card\<close>.\<close>

datatype event =
    Click_dot nat
  | Keydown_dot nat string
  | Scroll rat
  | Fire nat
  | Frame
  | Mouseenter nat
  | Mouseleave nat
  | Focus_card nat
  | Blur_card nat
  | Click_skip

text \<open>The scroll listener of lines 57-65.\<close>

definition nav_scroll :: "page \<Rightarrow> page" where
  "nav_scroll p =
     (let p1 = (case scrollTimeout p of
                  None \<Rightarrow> p
                | Some h \<Rightarrow> if h \<noteq> 0 then clearTimer (Some h) p else p)
      in (setTimer UpdateActive 16 False p1)\<lparr>scrollTimeout := Some (next_handle p1)\<rparr>)"

definition run_callback :: "callback \<Rightarrow> page \<Rightarrow> page result" where
  "run_callback cb p =
     (case cb of
        StartTyping \<Rightarrow> Returns (start_typing p)
      | TypeWriter \<Rightarrow> typeWriter p
      | RemoveAnnouncement n \<Rightarrow> removeChild n p
      | RemoveTabindex k \<Rightarrow> Returns (set_sec_tabindex k None p)
      | UpdateActive \<Rightarrow> updateActiveNavigation p)"

definition on_card :: "nat \<Rightarrow> (bool \<Rightarrow> card \<Rightarrow> card) \<Rightarrow> page \<Rightarrow> page" where
  "on_card n handler p =
     (if n < length (cards p) \<and> card_listening (cards p ! n)
      then p\<lparr>cards := (cards p)[n := handler (prefersReducedMotion p) (cards p ! n)]\<rparr>
      else p)"

fun step :: "page \<Rightarrow> event \<Rightarrow> page" where
  "step p (Click_dot n) =
     (if n < length (dots p) \<and> dot_listening (dots p ! n)
      then navigateToSection (dots p ! n) p else p)"
| "step p (Keydown_dot n key) =
     (if n < length (dots p) \<and> dot_listening (dots p ! n) \<and> (key = ''Enter'' \<or> key = '' '')
      then navigateToSection (dots p ! n) (log_effect PreventDefault p) else p)"
| "step p (Scroll y) =
     (let p1 = p\<lparr>scrollY := y\<rparr>;
          p2 = (if nav_scroll_listener p1 then nav_scroll p1 else p1)
      in if parallax_listener p2 then parallax_scroll p2 else p2)"
| "step p (Fire h) =
     (case timers p h of
        None \<Rightarrow> p
      | Some t \<Rightarrow>
          settle (run_callback (callback t)
                    (if repeating t then p else p\<lparr>timers := (timers p)(h := None)\<rparr>)))"
| "step p Frame = fold (\<lambda>cb q. parallax_frame q) (frames p) (p\<lparr>frames := []\<rparr>)"
| "step p (Mouseenter n) = on_card n mouseenter p"
| "step p (Mouseleave n) = on_card n mouseleave p"
| "step p (Focus_card n) = on_card n focus_card p"
| "step p (Blur_card n) = on_card n blur_card p"
| "step p Click_skip = (if skip_listener p then settle (skip_click p) else p)"

definition run :: "page \<Rightarrow> event list \<Rightarrow> page" where
  "run p evs = foldl step p evs"

section \<open>Notions the properties are stated with\<close>

subsection \<open>A sample page\<close>

text \<open>Three markers and their sections, one card and a subtitle reading \<open>Hi\<close>,
  scrolled to offset 450; and a page whose only section has the id \<open>null\<close> and
  whose only marker has no \<open>data-section\<close> attribute.\<close>

definition marker :: "string option \<Rightarrow> dot" where
  "marker target =
     \<lparr>data_section = target, dot_role = None, dot_tabindex = None, aria_label = None,
      aria_current = None, active = False, dot_listening = False\<rparr>"

definition region :: "int \<Rightarrow> section_elem" where
  "region y = \<lparr>offsetTop = y, clientHeight = 600, sec_tabindex = None\<rparr>"

definition plain_card :: card where
  "plain_card =
     \<lparr>card_tabindex = None, card_role = None, transform = [], transition = [], outline = [],
      outlineOffset = [], card_listening = False\<rparr>"

definition portfolio :: "bool \<Rightarrow> page" where
  "portfolio reduced =
     document reduced
       [marker (Some ''header''), marker (Some ''about''), marker (Some ''skills'')]
       [(''header'', region 0), (''about'', region 600), (''skills'', region 1200)]
       [plain_card]
       (Some \<lparr>textContent = ''Hi'', sub_aria_live = None\<rparr>)
       450"

definition null_page :: page where
  "null_page = document False [marker None] [(''null'', region 0)] [] None 0"

subsection \<open>The current section, in the words of the specification\<close>

text \<open>A section qualifies when it exists and its top minus 200 is at most the
  scroll offset; \<open>last_qualifying\<close> is the last such section in the fixed order.
  The data model has one marker per section, each naming its section:
  \<open>markers_one_per_section\<close> says that every marker has a non-empty target id and
  that no two markers share one.  \<open>mark\<close> is what lines 84-96 write to one marker
  that has a target.\<close>

definition qualifies :: "page \<Rightarrow> string \<Rightarrow> bool" where
  "qualifies p sectionId =
     (case getElementById p (Some sectionId) of
        None \<Rightarrow> False
      | Some sec \<Rightarrow> of_int (offsetTop sec) - 200 \<le> scrollY p)"

definition last_qualifying :: "page \<Rightarrow> string option" where
  "last_qualifying p =
     (case filter (qualifies p) section_ids of [] \<Rightarrow> None | x # xs \<Rightarrow> Some (last (x # xs)))"

definition has_target :: "dot \<Rightarrow> bool" where
  "has_target d = (case data_section d of None \<Rightarrow> False | Some sectionId \<Rightarrow> sectionId \<noteq> [])"

definition markers_one_per_section :: "dot list \<Rightarrow> bool" where
  "markers_one_per_section ds = (list_all has_target ds \<and> distinct (map data_section ds))"

definition mark :: "string \<Rightarrow> dot \<Rightarrow> dot" where
  "mark current d =
     d\<lparr>active := (data_section d = Some current),
       aria_current := Some (if data_section d = Some current then ''true'' else ''false''),
       aria_label := Some
         (if data_section d = Some current
          then ''Current section: '' @ capitalize (js_string (data_section d))
          else ''Navigate to '' @ capitalize (js_string (data_section d)) @ '' section'')\<rparr>"

subsection \<open>Removals of the skip control\<close>

text \<open>\<open>skip_removals\<close> counts the \<open>removeChild\<close> calls on the skip button in the
  effect log.  The script removes the button in two places: the skip handler
  (lines 175-181), and the \<open>else\<close> branch of \<open>typeWriter\<close> (lines 163-167).
  \<open>skip_activated\<close> says that the event is a click that reaches the skip handler.
  \<open>cleanup_tick\<close> says that the event fires a timer whose callback is
  \<open>typeWriter\<close> while no character is left to emit: that is the first tick after
  the one that emitted the last character, not the tick at which the number of
  emitted characters reaches the length of the text.\<close>

definition skip_removals :: "page \<Rightarrow> nat" where
  "skip_removals p =
     (case skipButton p of None \<Rightarrow> 0 | Some b \<Rightarrow> count_list (effects p) (RemoveChild b))"

definition skip_activated :: "page \<Rightarrow> event \<Rightarrow> bool" where
  "skip_activated p ev = (ev = Click_skip \<and> skip_listener p)"

definition cleanup_tick :: "page \<Rightarrow> event \<Rightarrow> bool" where
  "cleanup_tick p ev =
     (case ev of
        Fire h \<Rightarrow>
          (case timers p h of
             None \<Rightarrow> False
           | Some t \<Rightarrow> callback t = TypeWriter \<and> \<not> typing_i p < length (typing_text p))
      | _ \<Rightarrow> False)"

subsection \<open>What holds of every page the script can reach\<close>

text \<open>Node ids in the body and the id of the skip button lie below the counter
  for new nodes.  Every pending timer that removes an announcement is one-shot,
  its announcement is still a child of the body and is not the skip button, and
  no two such timers remove the same announcement.  The count of skip-button
  removals is 0 while the button is attached and 1 afterwards; while no skip
  button exists, no skip handler and no typing timer exists.  No
  \<open>NotFoundError\<close> has been raised.\<close>

definition fresh_ids :: "page \<Rightarrow> bool" where
  "fresh_ids p = ((\<forall>c \<in> set (body p). fst c < next_node p) \<and>
                  (\<forall>b. skipButton p = Some b \<longrightarrow> b < next_node p))"

definition removal_timers :: "page \<Rightarrow> bool" where
  "removal_timers p =
     ((\<forall>h t e. timers p h = Some t \<longrightarrow> callback t = RemoveAnnouncement e \<longrightarrow>
          is_child e p \<and> \<not> repeating t \<and> skipButton p \<noteq> Some e) \<and>
      (\<forall>h h' t t' e. timers p h = Some t \<longrightarrow> timers p h' = Some t' \<longrightarrow>
          callback t = RemoveAnnouncement e \<longrightarrow> callback t' = RemoveAnnouncement e \<longrightarrow> h = h'))"

definition skip_counted :: "page \<Rightarrow> bool" where
  "skip_counted p =
     ((skipButton p = None \<longrightarrow> \<not> skip_listener p \<and>
         (\<forall>h t. timers p h = Some t \<longrightarrow> callback t \<noteq> TypeWriter \<and> callback t \<noteq> StartTyping)) \<and>
      (\<forall>b. skipButton p = Some b \<longrightarrow>
         count_list (effects p) (RemoveChild b) = (if is_child b p then 0 else 1)))"

definition page_inv :: "page \<Rightarrow> bool" where
  "page_inv p = (fresh_ids p \<and> removal_timers p \<and> skip_counted p \<and> NotFoundError \<notin> set (uncaught p))"

text \<open>The state \<open>removeSkipButton\<close> returns.\<close>

definition detach_skip :: "nat option \<Rightarrow> page \<Rightarrow> page" where
  "detach_skip button p =
     (case button of
        None \<Rightarrow> p
      | Some b \<Rightarrow>
          if is_child b p
          then log_effect (RemoveChild b) (p\<lparr>body := filter (\<lambda>c. fst c \<noteq> b) (body p)\<rparr>)
          else p)"

subsection \<open>An announcement and its timer\<close>

text \<open>Every pending timer has a handle below the counter for new handles, and
  so have the handles kept in \<open>scrollTimeout\<close> and \<open>typingInterval\<close>; a pending
  timer with one of those two handles is the one the variable was set for.
  \<open>awaits h n a\<close>: the element \<open>a\<close> with id \<open>n\<close> is a child of the body and the
  timer \<open>h\<close> that removes it is pending.  \<open>gone n\<close>: the id \<open>n\<close> has been given
  out and is no child of the body.\<close>

definition handles_fresh :: "page \<Rightarrow> bool" where
  "handles_fresh p =
     ((\<forall>h t. timers p h = Some t \<longrightarrow> h < next_handle p) \<and>
      (\<forall>k. scrollTimeout p = Some k \<longrightarrow> k < next_handle p) \<and>
      (\<forall>k. typingInterval p = Some k \<longrightarrow> k < next_handle p) \<and>
      (\<forall>k t. scrollTimeout p = Some k \<longrightarrow> timers p k = Some t \<longrightarrow> callback t = UpdateActive) \<and>
      (\<forall>k t. typingInterval p = Some k \<longrightarrow> timers p k = Some t \<longrightarrow> callback t = TypeWriter))"

definition awaits :: "nat \<Rightarrow> nat \<Rightarrow> elem \<Rightarrow> page \<Rightarrow> bool" where
  "awaits h n a p =
     (timers p h = Some \<lparr>delay = 1000, repeating = False, callback = RemoveAnnouncement n\<rparr> \<and>
      (n, a) \<in> set (body p) \<and> h < next_handle p)"

definition gone :: "nat \<Rightarrow> page \<Rightarrow> bool" where
  "gone n p = (\<not> is_child n p \<and> n < next_node p)"

text \<open>A skip button that is attached while nothing can remove it: no click
  handler is attached and no typing timer is pending.\<close>

definition dormant_button :: "nat \<Rightarrow> page \<Rightarrow> bool" where
  "dormant_button b p =
     (is_child b p \<and> skipButton p = Some b \<and> \<not> skip_listener p \<and>
      (\<forall>h t. timers p h = Some t \<longrightarrow> callback t \<noteq> TypeWriter \<and> callback t \<noteq> StartTyping))"

text \<open>Reduced motion with the parallax responder absent.\<close>

definition parallax_off :: "page \<Rightarrow> bool" where
  "parallax_off p = (prefersReducedMotion p \<and> \<not> parallax_listener p \<and> frames p = [] \<and>
                     backgroundPosition p = None)"

subsection \<open>The typing timer at work\<close>

text \<open>\<open>skip_ready b p\<close>: the skip button is the node \<open>b\<close> and its click handler is
  attached.  \<open>typing_at h b text k p\<close>: the interval timer \<open>h\<close> of line 171 is
  pending with \<open>typeWriter\<close> as its callback, \<open>k\<close> characters of \<open>text\<close> have been
  emitted and are what the subtitle shows, and the skip button \<open>b\<close> is a child of
  the body.\<close>

definition skip_ready :: "nat \<Rightarrow> page \<Rightarrow> bool" where
  "skip_ready b p = (skipButton p = Some b \<and> skip_listener p)"

definition typing_at :: "nat \<Rightarrow> nat \<Rightarrow> string \<Rightarrow> nat \<Rightarrow> page \<Rightarrow> bool" where
  "typing_at h b text k p =
     (timers p h = Some \<lparr>delay = 50, repeating = True, callback = TypeWriter\<rparr> \<and>
      typingInterval p = Some h \<and> typing_text p = text \<and> typing_i p = k \<and>
      skipButton p = Some b \<and> is_child b p \<and>
      map_option textContent (subtitle p) = Some (take k text))"

subsection \<open>A marker whose handlers were never attached\<close>

text \<open>\<open>no_target d\<close>: the marker has no \<open>data-section\<close> attribute and no click or
  keydown handler.  \<open>unattached n p\<close>: the n-th marker of the page is such a
  marker.\<close>

definition unattached :: "nat \<Rightarrow> page \<Rightarrow> bool" where
  "unattached n p =
     (n < length (dots p) \<and> data_section (dots p ! n) = None \<and> \<not> dot_listening (dots p ! n))"


section \<open>Lemmas\<close>

subsection \<open>The loop over the section ids\<close>

lemma visit_section_qualifies:
  "visit_section p x c = (if qualifies p x then x else c)"
  by (simp add: visit_section_def qualifies_def split: option.splits)

lemma fold_visit_section:
  "fold (visit_section p) xs c =
     (case filter (qualifies p) xs of [] \<Rightarrow> c | y # ys \<Rightarrow> last (y # ys))"
proof (induction xs arbitrary: c)
  case Nil
  show ?case by simp
next
  case (Cons x xs)
  have "fold (visit_section p) (x # xs) c = fold (visit_section p) xs (visit_section p x c)"
    by simp
  also have "\<dots> = (case filter (qualifies p) xs of
                       [] \<Rightarrow> visit_section p x c | y # ys \<Rightarrow> last (y # ys))"
    by (rule Cons.IH)
  also have "\<dots> = (case filter (qualifies p) (x # xs) of [] \<Rightarrow> c | y # ys \<Rightarrow> last (y # ys))"
    by (simp add: visit_section_qualifies split: list.splits)
  finally show ?case .
qed

lemma current_section_last_qualifying:
  "current_section p = (case last_qualifying p of None \<Rightarrow> [] | Some s \<Rightarrow> s)"
  by (simp add: current_section_def last_qualifying_def fold_visit_section split: list.splits)

lemma last_qualifying_nonempty: "last_qualifying p = Some s \<Longrightarrow> s \<noteq> []"
proof -
  assume a: "last_qualifying p = Some s"
  then obtain x xs where f: "filter (qualifies p) section_ids = x # xs" and s: "s = last (x # xs)"
    by (auto simp: last_qualifying_def split: list.splits)
  have "last (x # xs) \<in> set (x # xs)" by (rule last_in_set) simp
  with f s have "s \<in> set (filter (qualifies p) section_ids)" by simp
  then have "s \<in> set section_ids" by simp
  then show ?thesis by (auto simp: section_ids_def)
qed

lemma update_dot_has_target:
  "data_section d \<noteq> None \<Longrightarrow> update_dot current d = Returns (mark current d)"
  by (auto simp: update_dot_def mark_def js_string_def Let_def)

lemma forEach_update_dot:
  "list_all (\<lambda>d. data_section d \<noteq> None) ds \<Longrightarrow>
     forEach_result (update_dot current) ds = Returns (map (mark current) ds)"
  by (induction ds) (simp_all add: update_dot_has_target)

lemma filter_distinct_key:
  "distinct (map f xs) \<Longrightarrow> length (filter (\<lambda>x. f x = k) xs) \<le> 1"
proof (induction xs)
  case Nil
  show ?case by simp
next
  case (Cons x xs)
  show ?case
  proof (cases "f x = k")
    case True
    with Cons.prems have "k \<notin> f ` set xs" by auto
    then have "filter (\<lambda>x. f x = k) xs = []" by (auto simp: filter_empty_conv)
    with True show ?thesis by simp
  next
    case False
    with Cons show ?thesis by simp
  qed
qed

lemma filter_active_mark:
  "filter active (map (mark current) ds) =
     map (mark current) (filter (\<lambda>d. data_section d = Some current) ds)"
  by (induction ds) (simp_all add: mark_def)

subsection \<open>What the functions of the script change\<close>

lemma forEach_update_dot_throws:
  "forEach_result (update_dot c) ds = Throws e ds' \<Longrightarrow> e = TypeError"
  by (induction ds arbitrary: ds')
     (auto simp: update_dot_def Let_def split: option.splits result.splits)

lemma updateActiveNavigation_frame:
  obtains ds es where "settle (updateActiveNavigation p) = p\<lparr>dots := ds, uncaught := uncaught p @ es\<rparr>"
    and "set es \<subseteq> {TypeError}"
proof (cases "forEach_result (update_dot (current_section p)) (dots p)")
  case (Returns ds)
  then have "settle (updateActiveNavigation p) = p\<lparr>dots := ds, uncaught := uncaught p @ []\<rparr>"
    by (simp add: updateActiveNavigation_def settle_def)
  then show ?thesis by (rule that) simp
next
  case (Throws e ds)
  then have "settle (updateActiveNavigation p) = p\<lparr>dots := ds, uncaught := uncaught p @ [e]\<rparr>"
    by (simp add: updateActiveNavigation_def settle_def)
  moreover from Throws have "set [e] \<subseteq> {TypeError}"
    by (simp add: forEach_update_dot_throws)
  ultimately show ?thesis by (rule that)
qed

lemma fold_parallax_frame:
  "\<exists>bp tk. fold (\<lambda>cb. parallax_frame) fs p = p\<lparr>backgroundPosition := bp, ticking := tk\<rparr>"
proof (induction fs arbitrary: p)
  case Nil
  have "p = p\<lparr>backgroundPosition := backgroundPosition p, ticking := ticking p\<rparr>" by simp
  then show ?case by (metis fold_simps(1))
next
  case (Cons f fs)
  from Cons [of "parallax_frame p"] show ?case
    by (auto simp: parallax_frame_def)
qed

lemma forEach_init_dot_throws:
  "forEach_result init_dot ds = Throws e ds' \<Longrightarrow> e = TypeError"
  by (induction ds arbitrary: ds')
     (auto simp: init_dot_def Let_def split: option.splits result.splits)

lemma script_top_frame:
  obtains ds cs n l es where
    "settle (script_top p) = p\<lparr>dots := ds, cards := cs, nav_scroll_listener := n, loaded_listener := l,
       uncaught := uncaught p @ es\<rparr>" and "set es \<subseteq> {TypeError}"
proof (cases "forEach_result init_dot (dots p)")
  case (Returns ds)
  then have "settle (script_top p) = p\<lparr>dots := ds, cards := map init_card (cards p),
      nav_scroll_listener := True, loaded_listener := True, uncaught := uncaught p @ []\<rparr>"
    by (simp add: script_top_def settle_def)
  then show ?thesis by (rule that) simp
next
  case (Throws e ds)
  then have "settle (script_top p) = p\<lparr>dots := ds, cards := cards p,
      nav_scroll_listener := nav_scroll_listener p, loaded_listener := loaded_listener p,
      uncaught := uncaught p @ [e]\<rparr>"
    by (simp add: script_top_def settle_def)
  moreover from Throws have "set [e] \<subseteq> {TypeError}" by (simp add: forEach_init_dot_throws)
  ultimately show ?thesis by (rule that)
qed

lemma domContentLoaded_frame:
  obtains ds es ml where
    "settle (domContentLoaded p) =
       (initParallaxEffect (initTypingEffect (addSkipToContentLink p)))
         \<lparr>dots := ds, motion_listener := ml,
          uncaught := uncaught (initParallaxEffect (initTypingEffect (addSkipToContentLink p))) @ es\<rparr>"
    and "set es \<subseteq> {TypeError}"
proof -
  let ?q = "initParallaxEffect (initTypingEffect (addSkipToContentLink p))"
  show ?thesis
  proof (cases "forEach_result (update_dot (current_section ?q)) (dots ?q)")
    case (Returns ds)
    then have "settle (domContentLoaded p) =
        ?q\<lparr>dots := ds, motion_listener := True, uncaught := uncaught ?q @ []\<rparr>"
      by (simp add: domContentLoaded_def updateActiveNavigation_def and_then_def settle_def)
    then show ?thesis by (rule that) simp
  next
    case (Throws e ds)
    then have "settle (domContentLoaded p) =
        ?q\<lparr>dots := ds, motion_listener := motion_listener ?q, uncaught := uncaught ?q @ [e]\<rparr>"
      by (simp add: domContentLoaded_def updateActiveNavigation_def and_then_def settle_def)
    moreover from Throws have "set [e] \<subseteq> {TypeError}" by (simp add: forEach_update_dot_throws)
    ultimately show ?thesis by (rule that)
  qed
qed

lemma document_fields:
  "skipButton (document m ds secs cs sub y) = None"
  "effects (document m ds secs cs sub y) = []"
  "uncaught (document m ds secs cs sub y) = []"
  "timers (document m ds secs cs sub y) = Map.empty"
  by (simp_all add: document_def)

lemma removeSkipButton_returns: "removeSkipButton b p = Returns (detach_skip b p)"
  by (simp add: removeSkipButton_def detach_skip_def removeChild_def split: option.splits)

lemma announce_fields:
  "body (announceToScreenReader m p) = body p @ [(next_node p, announcement m)]"
  "next_node (announceToScreenReader m p) = Suc (next_node p)"
  "timers (announceToScreenReader m p) =
     (timers p)(next_handle p \<mapsto> \<lparr>delay = 1000, repeating = False, callback = RemoveAnnouncement (next_node p)\<rparr>)"
  "next_handle (announceToScreenReader m p) = Suc (next_handle p)"
  "skipButton (announceToScreenReader m p) = skipButton p"
  "skip_listener (announceToScreenReader m p) = skip_listener p"
  "effects (announceToScreenReader m p) = effects p"
  "uncaught (announceToScreenReader m p) = uncaught p"
  by (simp_all add: announceToScreenReader_def setTimer_def appendChild_def)

lemma is_child_announce:
  "is_child e (announceToScreenReader m p) = (is_child e p \<or> e = next_node p)"
  by (auto simp: is_child_def announce_fields)

lemma is_child_filter:
  "is_child x (p\<lparr>body := filter (\<lambda>c. fst c \<noteq> e) (body p)\<rparr>) = (is_child x p \<and> x \<noteq> e)"
  by (auto simp: is_child_def)

lemma fire_removal_result:
  assumes "is_child e p"
  shows "settle (removeChild e (p\<lparr>timers := (timers p)(h := None)\<rparr>)) =
           p\<lparr>timers := (timers p)(h := None), body := filter (\<lambda>c. fst c \<noteq> e) (body p),
             effects := effects p @ [RemoveChild e]\<rparr>"
  using assms by (simp add: removeChild_def settle_def log_effect_def is_child_def)

subsection \<open>The invariant is kept by every step\<close>

lemmas page_inv_defs = page_inv_def fresh_ids_def removal_timers_def skip_counted_def is_child_def

lemma ids_without:
  "fst ` {x \<in> set xs. fst x \<noteq> m} = fst ` set xs - {m}"
  by force

lemma page_inv_other_fields [simp]:
  "page_inv (p\<lparr>dots := a1\<rparr>) = page_inv p"
  "page_inv (p\<lparr>sections := a2\<rparr>) = page_inv p"
  "page_inv (p\<lparr>cards := a3\<rparr>) = page_inv p"
  "page_inv (p\<lparr>subtitle := a4\<rparr>) = page_inv p"
  "page_inv (p\<lparr>frames := a5\<rparr>) = page_inv p"
  "page_inv (p\<lparr>scrollY := a6\<rparr>) = page_inv p"
  "page_inv (p\<lparr>backgroundPosition := a7\<rparr>) = page_inv p"
  "page_inv (p\<lparr>scrollTimeout := a8\<rparr>) = page_inv p"
  "page_inv (p\<lparr>ticking := a9\<rparr>) = page_inv p"
  "page_inv (p\<lparr>typing_i := b1\<rparr>) = page_inv p"
  "page_inv (p\<lparr>typingInterval := b2\<rparr>) = page_inv p"
  "page_inv (p\<lparr>next_handle := b3\<rparr>) = page_inv p"
  by (simp_all add: page_inv_defs)

lemma page_inv_log_effect [simp]:
  "page_inv (log_effect (ScrollIntoView k m) p) = page_inv p"
  "page_inv (log_effect (Focus k) p) = page_inv p"
  "page_inv (log_effect PreventDefault p) = page_inv p"
  by (simp_all add: page_inv_defs log_effect_def)

lemma page_inv_set_sec_tabindex [simp]: "page_inv (set_sec_tabindex k v p) = page_inv p"
  by (simp add: set_sec_tabindex_def split: option.splits)

lemma page_inv_update_subtitle [simp]: "page_inv (update_subtitle f p) = page_inv p"
  by (simp add: update_subtitle_def)

lemma page_inv_clearTimer: "page_inv p \<Longrightarrow> page_inv (clearTimer h p)"
  by (cases h) (auto simp: page_inv_defs clearTimer_def)

lemma removal_timersI:
  assumes "\<And>h t e. timers p h = Some t \<Longrightarrow> callback t = RemoveAnnouncement e \<Longrightarrow>
             is_child e p \<and> \<not> repeating t \<and> skipButton p \<noteq> Some e"
    and "\<And>h h' t t' e. timers p h = Some t \<Longrightarrow> timers p h' = Some t' \<Longrightarrow>
             callback t = RemoveAnnouncement e \<Longrightarrow> callback t' = RemoveAnnouncement e \<Longrightarrow> h = h'"
  shows "removal_timers p"
  unfolding removal_timers_def using assms by blast

lemma removal_timers_pending:
  "removal_timers p \<Longrightarrow> timers p h = Some t \<Longrightarrow> callback t = RemoveAnnouncement e \<Longrightarrow>
     is_child e p \<and> \<not> repeating t \<and> skipButton p \<noteq> Some e"
  unfolding removal_timers_def by blast

lemma removal_timers_unique:
  "removal_timers p \<Longrightarrow> timers p h = Some t \<Longrightarrow> timers p h' = Some t' \<Longrightarrow>
     callback t = RemoveAnnouncement e \<Longrightarrow> callback t' = RemoveAnnouncement e \<Longrightarrow> h = h'"
  unfolding removal_timers_def by blast

lemma is_child_fresh: "fresh_ids p \<Longrightarrow> is_child e p \<Longrightarrow> e < next_node p"
  by (auto simp: fresh_ids_def is_child_def)

lemma fresh_ids_announce: "fresh_ids p \<Longrightarrow> fresh_ids (announceToScreenReader m p)"
  by (auto simp: fresh_ids_def announce_fields intro: less_SucI)

lemma removal_timers_announce:
  assumes f: "fresh_ids p" and r: "removal_timers p"
  shows "removal_timers (announceToScreenReader m p)"
proof (rule removal_timersI)
  fix h t e
  assume t: "timers (announceToScreenReader m p) h = Some t" and c: "callback t = RemoveAnnouncement e"
  show "is_child e (announceToScreenReader m p) \<and> \<not> repeating t \<and>
        skipButton (announceToScreenReader m p) \<noteq> Some e"
  proof (cases "h = next_handle p")
    case True
    with t c have e: "e = next_node p" and "\<not> repeating t" by (auto simp: announce_fields)
    moreover from f e have "skipButton p \<noteq> Some e" by (auto simp: fresh_ids_def)
    ultimately show ?thesis by (simp add: is_child_announce announce_fields)
  next
    case False
    with t have "timers p h = Some t" by (simp add: announce_fields)
    from removal_timers_pending [OF r this c] show ?thesis
      by (simp add: is_child_announce announce_fields)
  qed
next
  fix h h' t t' e
  assume t: "timers (announceToScreenReader m p) h = Some t"
    and t': "timers (announceToScreenReader m p) h' = Some t'"
    and c: "callback t = RemoveAnnouncement e" and c': "callback t' = RemoveAnnouncement e"
  have old: "e < next_node p" if "k \<noteq> next_handle p" and "timers (announceToScreenReader m p) k = Some u"
    and "callback u = RemoveAnnouncement e" for k u
  proof -
    from that have "timers p k = Some u" by (simp add: announce_fields)
    from removal_timers_pending [OF r this that(3)] have "is_child e p" by simp
    with f show ?thesis by (rule is_child_fresh)
  qed
  have new: "e = next_node p" if "k = next_handle p" and "timers (announceToScreenReader m p) k = Some u"
    and "callback u = RemoveAnnouncement e" for k u
    using that by (auto simp: announce_fields)
  show "h = h'"
  proof (cases "h = next_handle p")
    case True
    show ?thesis
    proof (cases "h' = next_handle p")
      case True
      with \<open>h = next_handle p\<close> show ?thesis by simp
    next
      case False
      from new [OF True t c] old [OF False t' c'] show ?thesis by simp
    qed
  next
    case False
    show ?thesis
    proof (cases "h' = next_handle p")
      case True
      from new [OF True t' c'] old [OF False t c] show ?thesis by simp
    next
      case h': False
      from False t have "timers p h = Some t" by (simp add: announce_fields)
      moreover from h' t' have "timers p h' = Some t'" by (simp add: announce_fields)
      ultimately show ?thesis using c c' by (rule removal_timers_unique [OF r])
    qed
  qed
qed

lemma skip_counted_announce:
  assumes f: "fresh_ids p" and a: "skip_counted p"
  shows "skip_counted (announceToScreenReader m p)"
proof -
  have "is_child b (announceToScreenReader m p) = is_child b p" if "skipButton p = Some b" for b
    using f that by (auto simp: is_child_announce fresh_ids_def)
  with a show ?thesis
    by (auto simp: skip_counted_def announce_fields)
qed

lemma page_inv_announce: "page_inv p \<Longrightarrow> page_inv (announceToScreenReader m p)"
  by (simp add: page_inv_def fresh_ids_announce removal_timers_announce skip_counted_announce announce_fields)

lemma page_inv_setTimer:
  "page_inv p \<Longrightarrow> page_inv (setTimer UpdateActive ms rep p)"
  "page_inv p \<Longrightarrow> page_inv (setTimer (RemoveTabindex k) ms rep p)"
  "page_inv p \<Longrightarrow> skipButton p \<noteq> None \<Longrightarrow> page_inv (setTimer TypeWriter ms rep p)"
  by (auto simp: page_inv_defs setTimer_def)

lemma page_inv_detach_skip: "page_inv p \<Longrightarrow> page_inv (detach_skip (skipButton p) p)"
  by (cases "skipButton p")
     (auto simp: page_inv_defs detach_skip_def log_effect_def ids_without)

lemma page_inv_fire_removal:
  assumes i: "page_inv p" and t: "timers p h = Some t" and c: "callback t = RemoveAnnouncement e"
  shows "page_inv (settle (removeChild e (p\<lparr>timers := (timers p)(h := None)\<rparr>)))"
proof -
  let ?r = "p\<lparr>timers := (timers p)(h := None), body := filter (\<lambda>c. fst c \<noteq> e) (body p),
             effects := effects p @ [RemoveChild e]\<rparr>"
  from i have f: "fresh_ids p" and r: "removal_timers p" and s: "skip_counted p"
    and u: "NotFoundError \<notin> set (uncaught p)" by (simp_all add: page_inv_def)
  from removal_timers_pending [OF r t c]
  have child: "is_child e p" and button: "skipButton p \<noteq> Some e" by simp_all
  have ch: "is_child x ?r = (is_child x p \<and> x \<noteq> e)" for x by (auto simp: is_child_def)
  have f': "fresh_ids ?r" using f by (auto simp: fresh_ids_def)
  have r': "removal_timers ?r"
  proof (rule removal_timersI)
    fix k u e'
    assume k: "timers ?r k = Some u" and cu: "callback u = RemoveAnnouncement e'"
    then have kh: "k \<noteq> h" and ku: "timers p k = Some u" by (auto split: if_splits)
    have "e' \<noteq> e"
    proof
      assume "e' = e"
      with cu have "callback u = RemoveAnnouncement e" by simp
      from removal_timers_unique [OF r ku t this c] kh show False by simp
    qed
    with removal_timers_pending [OF r ku cu]
    show "is_child e' ?r \<and> \<not> repeating u \<and> skipButton ?r \<noteq> Some e'" by (simp add: ch)
  next
    fix k k' u u' e'
    assume "timers ?r k = Some u" and "timers ?r k' = Some u'"
      and cu: "callback u = RemoveAnnouncement e'" and cu': "callback u' = RemoveAnnouncement e'"
    then have "timers p k = Some u" and "timers p k' = Some u'" by (auto split: if_splits)
    then show "k = k'" using cu cu' by (rule removal_timers_unique [OF r])
  qed
  have s': "skip_counted ?r" using s button by (auto simp: skip_counted_def ch split: if_splits)
  from f' r' s' u have "page_inv ?r" by (simp add: page_inv_def)
  then show ?thesis by (simp add: fire_removal_result [OF child])
qed

lemma page_inv_updateActiveNavigation: "page_inv p \<Longrightarrow> page_inv (settle (updateActiveNavigation p))"
proof -
  assume a: "page_inv p"
  obtain ds es where "settle (updateActiveNavigation p) = p\<lparr>dots := ds, uncaught := uncaught p @ es\<rparr>"
    and "set es \<subseteq> {TypeError}"
    by (rule updateActiveNavigation_frame)
  with a show ?thesis by (auto simp: page_inv_defs)
qed

lemma page_inv_navigateToSection: "page_inv p \<Longrightarrow> page_inv (navigateToSection d p)"
  by (cases "getElementById p (data_section d)")
     (simp_all add: navigateToSection_def Let_def page_inv_setTimer page_inv_announce)

lemma page_inv_nav_scroll: "page_inv p \<Longrightarrow> page_inv (nav_scroll p)"
  by (cases "scrollTimeout p") (simp_all add: nav_scroll_def Let_def page_inv_setTimer page_inv_clearTimer)

lemma page_inv_typeWriter: "page_inv p \<Longrightarrow> page_inv (settle (typeWriter p))"
proof -
  assume a: "page_inv p"
  have "page_inv (detach_skip (skipButton (clearTimer (typingInterval p) p)) (clearTimer (typingInterval p) p))"
    by (intro page_inv_detach_skip page_inv_clearTimer a)
  moreover have "skipButton (clearTimer (typingInterval p) p) = skipButton p"
    by (simp add: clearTimer_def split: option.splits)
  ultimately show ?thesis using a
    by (simp add: typeWriter_def removeSkipButton_returns and_then_def settle_def)
qed

lemma page_inv_skip_click: "page_inv p \<Longrightarrow> page_inv (settle (skip_click p))"
proof -
  assume a: "page_inv p"
  let ?q = "update_subtitle (\<lambda>s. s\<lparr>textContent := typing_text (clearTimer (typingInterval p) p)\<rparr>)
              (clearTimer (typingInterval p) p)"
  have "page_inv ?q" by (simp add: page_inv_clearTimer a)
  then have "page_inv (detach_skip (skipButton ?q) ?q)" by (rule page_inv_detach_skip)
  then show ?thesis
    by (simp add: skip_click_def Let_def removeSkipButton_returns and_then_def settle_def)
qed

lemma page_inv_start_typing: "page_inv p \<Longrightarrow> skipButton p \<noteq> None \<Longrightarrow> page_inv (start_typing p)"
  by (simp add: start_typing_def page_inv_setTimer)

lemma page_inv_step: "page_inv p \<Longrightarrow> page_inv (step p ev)"
proof (cases ev)
  case (Fire h)
  assume a: "page_inv p"
  show ?thesis
  proof (cases "timers p h")
    case None
    with Fire a show ?thesis by simp
  next
    case (Some t)
    let ?q = "if repeating t then p else p\<lparr>timers := (timers p)(h := None)\<rparr>"
    have q: "page_inv ?q" using a page_inv_clearTimer [OF a, of "Some h"] by (simp add: clearTimer_def)
    have sb: "skipButton ?q = skipButton p" by simp
    show ?thesis
    proof (cases "callback t")
      case StartTyping
      with a Some have "skipButton p \<noteq> None" by (auto simp: page_inv_defs)
      with q sb have "page_inv (start_typing ?q)" by (intro page_inv_start_typing) simp_all
      with Fire Some StartTyping show ?thesis by (simp add: run_callback_def settle_def)
    next
      case TypeWriter
      from q have "page_inv (settle (typeWriter ?q))" by (rule page_inv_typeWriter)
      with Fire Some TypeWriter show ?thesis by (simp add: run_callback_def)
    next
      case (RemoveAnnouncement e)
      with a Some have "\<not> repeating t" by (auto simp: page_inv_defs)
      with Fire Some RemoveAnnouncement page_inv_fire_removal [OF a Some RemoveAnnouncement]
      show ?thesis by (simp add: run_callback_def)
    next
      case (RemoveTabindex k)
      with Fire Some q show ?thesis by (simp add: run_callback_def settle_def)
    next
      case UpdateActive
      from q have "page_inv (settle (updateActiveNavigation ?q))" by (rule page_inv_updateActiveNavigation)
      with Fire Some UpdateActive show ?thesis by (simp add: run_callback_def)
    qed
  qed
next
  case Frame
  assume a: "page_inv p"
  obtain bp tk where "fold (\<lambda>cb. parallax_frame) (frames p) (p\<lparr>frames := []\<rparr>) = p\<lparr>frames := [], backgroundPosition := bp, ticking := tk\<rparr>"
    using fold_parallax_frame by blast
  with a Frame show ?thesis by simp
next
  case (Scroll y)
  assume a: "page_inv p"
  then have "page_inv (p\<lparr>scrollY := y\<rparr>)" by simp
  with Scroll show ?thesis
    by (simp add: Let_def page_inv_nav_scroll parallax_scroll_def)
qed (simp_all add: page_inv_navigateToSection page_inv_skip_click on_card_def)

lemma page_inv_run: "page_inv p \<Longrightarrow> page_inv (run p evs)"
  unfolding run_def by (induction evs arbitrary: p) (simp_all add: page_inv_step)

lemma page_inv_listener_fields [simp]:
  "page_inv (p\<lparr>nav_scroll_listener := c1\<rparr>) = page_inv p"
  "page_inv (p\<lparr>parallax_listener := c2\<rparr>) = page_inv p"
  "page_inv (p\<lparr>loaded_listener := c3\<rparr>) = page_inv p"
  "page_inv (p\<lparr>motion_listener := c4\<rparr>) = page_inv p"
  "page_inv (p\<lparr>typing_text := c5\<rparr>) = page_inv p"
  by (simp_all add: page_inv_defs)

lemma page_inv_addSkipToContentLink: "page_inv p \<Longrightarrow> page_inv (addSkipToContentLink p)"
  by (auto simp: page_inv_defs addSkipToContentLink_def intro: less_SucI)

lemma page_inv_initTypingEffect:
  assumes "page_inv p" and "skipButton p = None" and "effects p = []" and "timers p = Map.empty"
  shows "page_inv (initTypingEffect p)"
proof (cases "subtitle p")
  case None
  with assms show ?thesis by (simp add: initTypingEffect_def)
next
  case (Some sub)
  with assms show ?thesis
    by (cases "prefersReducedMotion p")
       (auto simp: initTypingEffect_def createSkipAnimationButton_def appendChild_def setTimer_def
          page_inv_defs Let_def intro: less_SucI)
qed

lemma page_inv_initParallaxEffect [simp]: "page_inv (initParallaxEffect p) = page_inv p"
  by (simp add: initParallaxEffect_def)

lemma page_inv_document: "page_inv (document m ds secs cs sub y)"
  by (simp add: page_inv_defs document_def)

lemma page_inv_uncaught: "page_inv p \<Longrightarrow> set es \<subseteq> {TypeError} \<Longrightarrow> page_inv (p\<lparr>uncaught := uncaught p @ es\<rparr>)"
  by (auto simp: page_inv_defs)

lemma page_inv_load: "page_inv (load (document m ds secs cs sub y))"
proof -
  let ?d = "document m ds secs cs sub y"
  obtain ds' cs' n l es where p1: "settle (script_top ?d) =
      ?d\<lparr>dots := ds', cards := cs', nav_scroll_listener := n, loaded_listener := l,
         uncaught := uncaught ?d @ es\<rparr>" and es: "set es \<subseteq> {TypeError}"
    by (rule script_top_frame)
  let ?p1 = "settle (script_top ?d)"
  have "page_inv (?d\<lparr>uncaught := uncaught ?d @ es\<rparr>)"
    using page_inv_document es by (rule page_inv_uncaught)
  then have i1: "page_inv ?p1" by (simp add: p1 page_inv_defs)
  have sb: "skipButton ?p1 = None" and ef: "effects ?p1 = []" and tm: "timers ?p1 = Map.empty"
    by (simp_all add: p1 document_fields)
  have i2: "page_inv (addSkipToContentLink ?p1)" using i1 by (rule page_inv_addSkipToContentLink)
  have "page_inv (initTypingEffect (addSkipToContentLink ?p1))"
    using i2 sb ef tm by (intro page_inv_initTypingEffect) (simp_all add: addSkipToContentLink_def)
  then have "page_inv (settle (updateActiveNavigation (initParallaxEffect (initTypingEffect (addSkipToContentLink ?p1)))))"
    by (intro page_inv_updateActiveNavigation) simp
  then have "page_inv (settle (domContentLoaded ?p1))"
    by (cases "updateActiveNavigation (initParallaxEffect (initTypingEffect (addSkipToContentLink ?p1)))")
       (simp_all add: domContentLoaded_def and_then_def settle_def)
  with i1 show ?thesis by (simp add: load_def Let_def)
qed

lemma page_inv_reachable: "page_inv (run (load (document m ds secs cs sub y)) evs)"
  by (intro page_inv_run page_inv_load)

subsection \<open>The removal count along a step\<close>

lemma skip_removals_other_fields [simp]:
  "skip_removals (p\<lparr>dots := a1\<rparr>) = skip_removals p"
  "skip_removals (p\<lparr>sections := a2\<rparr>) = skip_removals p"
  "skip_removals (p\<lparr>cards := a3\<rparr>) = skip_removals p"
  "skip_removals (p\<lparr>subtitle := a4\<rparr>) = skip_removals p"
  "skip_removals (p\<lparr>frames := a5\<rparr>) = skip_removals p"
  "skip_removals (p\<lparr>scrollY := a6\<rparr>) = skip_removals p"
  "skip_removals (p\<lparr>backgroundPosition := a7\<rparr>) = skip_removals p"
  "skip_removals (p\<lparr>scrollTimeout := a8\<rparr>) = skip_removals p"
  "skip_removals (p\<lparr>ticking := a9\<rparr>) = skip_removals p"
  "skip_removals (p\<lparr>typing_i := b1\<rparr>) = skip_removals p"
  "skip_removals (p\<lparr>typingInterval := b2\<rparr>) = skip_removals p"
  "skip_removals (p\<lparr>timers := b3\<rparr>) = skip_removals p"
  "skip_removals (p\<lparr>uncaught := b4\<rparr>) = skip_removals p"
  by (simp_all add: skip_removals_def split: option.splits)

lemma skip_removals_primitives [simp]:
  "skip_removals (log_effect (ScrollIntoView k m) p) = skip_removals p"
  "skip_removals (log_effect (Focus k) p) = skip_removals p"
  "skip_removals (log_effect PreventDefault p) = skip_removals p"
  "skip_removals (set_sec_tabindex k v p) = skip_removals p"
  "skip_removals (update_subtitle f p) = skip_removals p"
  "skip_removals (clearTimer h p) = skip_removals p"
  "skip_removals (setTimer cb ms rep p) = skip_removals p"
  "skip_removals (announceToScreenReader msg p) = skip_removals p"
  by (simp_all add: skip_removals_def log_effect_def set_sec_tabindex_def update_subtitle_def
        clearTimer_def setTimer_def announce_fields split: option.splits)

lemma skip_removals_navigateToSection [simp]:
  "skip_removals (navigateToSection d p) = skip_removals p"
  by (cases "getElementById p (data_section d)") (simp_all add: navigateToSection_def Let_def)

lemma skip_removals_nav_scroll [simp]: "skip_removals (nav_scroll p) = skip_removals p"
  by (cases "scrollTimeout p") (simp_all add: nav_scroll_def Let_def)

lemma skip_removals_detach:
  assumes "skip_counted p" and "skipButton p = Some b"
  shows "skip_removals (detach_skip (skipButton p) p) = 1"
  using assms by (auto simp: skip_counted_def skip_removals_def detach_skip_def log_effect_def)

lemma skip_removals_le: "skip_counted p \<Longrightarrow> skip_removals p \<le> 1"
  by (cases "skipButton p") (auto simp: skip_counted_def skip_removals_def)

lemma skip_removals_skip_click:
  assumes "page_inv p" and "skip_listener p"
  shows "skip_removals (settle (skip_click p)) = 1"
proof -
  from assms obtain b where b: "skipButton p = Some b" by (cases "skipButton p") (auto simp: page_inv_defs)
  let ?q = "update_subtitle (\<lambda>s. s\<lparr>textContent := typing_text (clearTimer (typingInterval p) p)\<rparr>)
              (clearTimer (typingInterval p) p)"
  have "page_inv ?q" using assms(1) by (simp add: page_inv_clearTimer)
  then have "skip_counted ?q" by (simp add: page_inv_def)
  moreover have "skipButton ?q = Some b"
    using b by (simp add: update_subtitle_def clearTimer_def split: option.splits)
  ultimately have "skip_removals (detach_skip (skipButton ?q) ?q) = 1" by (rule skip_removals_detach)
  then show ?thesis
    by (simp add: skip_click_def Let_def removeSkipButton_returns and_then_def settle_def)
qed

lemma skip_removals_typeWriter:
  assumes "page_inv p" and "skipButton p \<noteq> None"
  shows "skip_removals (settle (typeWriter p)) =
           (if typing_i p < length (typing_text p) then skip_removals p else 1)"
proof (cases "typing_i p < length (typing_text p)")
  case True
  then show ?thesis by (simp add: typeWriter_def settle_def)
next
  case False
  from assms obtain b where b: "skipButton p = Some b" by auto
  let ?q = "clearTimer (typingInterval p) p"
  have "page_inv ?q" using assms(1) by (rule page_inv_clearTimer)
  then have "skip_counted ?q" by (simp add: page_inv_def)
  moreover have sq: "skipButton ?q = Some b" using b by (simp add: clearTimer_def split: option.splits)
  ultimately have "skip_removals (detach_skip (skipButton ?q) ?q) = 1" by (rule skip_removals_detach)
  with False b sq show ?thesis
    by (simp add: typeWriter_def removeSkipButton_returns and_then_def settle_def)
qed

lemma skip_removals_fire_removal:
  assumes i: "page_inv p" and t: "timers p h = Some t" and c: "callback t = RemoveAnnouncement e"
  shows "skip_removals (settle (removeChild e (p\<lparr>timers := (timers p)(h := None)\<rparr>))) = skip_removals p"
proof -
  from i have r: "removal_timers p" by (simp add: page_inv_def)
  from removal_timers_pending [OF r t c]
  have child: "is_child e p" and button: "skipButton p \<noteq> Some e" by simp_all
  from button show ?thesis
    by (cases "skipButton p") (simp_all add: fire_removal_result [OF child] skip_removals_def)
qed

lemma skip_removals_step:
  assumes a: "page_inv p"
  shows "skip_removals (step p ev) =
           (if skip_activated p ev \<or> cleanup_tick p ev then 1 else skip_removals p)"
proof (cases ev)
  case (Fire h)
  show ?thesis
  proof (cases "timers p h")
    case None
    with Fire show ?thesis by (simp add: skip_activated_def cleanup_tick_def)
  next
    case (Some t)
    let ?q = "if repeating t then p else p\<lparr>timers := (timers p)(h := None)\<rparr>"
    have q: "page_inv ?q" using a page_inv_clearTimer [OF a, of "Some h"] by (simp add: clearTimer_def)
    have sq: "skip_removals ?q = skip_removals p" by simp
    show ?thesis
    proof (cases "callback t")
      case StartTyping
      with Fire Some sq show ?thesis
        by (simp add: skip_activated_def cleanup_tick_def run_callback_def settle_def start_typing_def)
    next
      case TypeWriter
      with a Some have "skipButton p \<noteq> None" by (auto simp: page_inv_defs)
      then have "skipButton ?q \<noteq> None" by simp
      from skip_removals_typeWriter [OF q this] Fire Some TypeWriter sq show ?thesis
        by (simp add: skip_activated_def cleanup_tick_def run_callback_def)
    next
      case (RemoveAnnouncement e)
      with a Some have "\<not> repeating t" by (auto simp: page_inv_defs)
      with Fire Some RemoveAnnouncement skip_removals_fire_removal [OF a Some RemoveAnnouncement]
      show ?thesis by (simp add: skip_activated_def cleanup_tick_def run_callback_def)
    next
      case (RemoveTabindex k)
      with Fire Some sq show ?thesis
        by (simp add: skip_activated_def cleanup_tick_def run_callback_def settle_def)
    next
      case UpdateActive
      obtain ds es where "settle (updateActiveNavigation ?q) = ?q\<lparr>dots := ds, uncaught := uncaught ?q @ es\<rparr>"
        by (rule updateActiveNavigation_frame)
      with Fire Some UpdateActive sq show ?thesis
        by (simp add: skip_activated_def cleanup_tick_def run_callback_def)
    qed
  qed
next
  case Frame
  obtain bp tk where "fold (\<lambda>cb. parallax_frame) (frames p) (p\<lparr>frames := []\<rparr>) = p\<lparr>frames := [], backgroundPosition := bp, ticking := tk\<rparr>"
    using fold_parallax_frame by blast
  with Frame show ?thesis by (simp add: skip_activated_def cleanup_tick_def)
next
  case (Scroll y)
  then show ?thesis
    by (simp add: Let_def parallax_scroll_def skip_activated_def cleanup_tick_def)
next
  case Click_skip
  with a skip_removals_skip_click [OF a] show ?thesis
    by (simp add: skip_activated_def cleanup_tick_def)
qed (simp_all add: on_card_def skip_activated_def cleanup_tick_def)

lemma load_effects: "effects (load (document m ds secs cs sub y)) = []"
proof -
  let ?d = "document m ds secs cs sub y"
  let ?p1 = "settle (script_top ?d)"
  obtain ds' cs' n l es where p1: "?p1 =
      ?d\<lparr>dots := ds', cards := cs', nav_scroll_listener := n, loaded_listener := l,
         uncaught := uncaught ?d @ es\<rparr>"
    by (rule script_top_frame)
  have e1: "effects ?p1 = []" by (simp add: p1 document_fields)
  let ?q = "initTypingEffect (addSkipToContentLink ?p1)"
  have "effects ?q = []"
    using e1
    by (cases "subtitle (addSkipToContentLink ?p1)")
       (simp_all add: initTypingEffect_def createSkipAnimationButton_def appendChild_def
          addSkipToContentLink_def setTimer_def Let_def)
  then have e2: "effects (initParallaxEffect ?q) = []" by (simp add: initParallaxEffect_def)
  obtain ds2 es2 ml where "settle (domContentLoaded ?p1) =
       (initParallaxEffect ?q)\<lparr>dots := ds2, motion_listener := ml,
          uncaught := uncaught (initParallaxEffect ?q) @ es2\<rparr>"
    by (rule domContentLoaded_frame)
  with e2 have "effects (settle (domContentLoaded ?p1)) = []" by simp
  with e1 show ?thesis by (simp add: load_def Let_def)
qed

subsection \<open>Reduced motion keeps the parallax responder off\<close>

lemma parallax_off_other_fields [simp]:
  "parallax_off (p\<lparr>dots := a1\<rparr>) = parallax_off p"
  "parallax_off (p\<lparr>sections := a2\<rparr>) = parallax_off p"
  "parallax_off (p\<lparr>cards := a3\<rparr>) = parallax_off p"
  "parallax_off (p\<lparr>subtitle := a4\<rparr>) = parallax_off p"
  "parallax_off (p\<lparr>body := a5\<rparr>) = parallax_off p"
  "parallax_off (p\<lparr>scrollY := a6\<rparr>) = parallax_off p"
  "parallax_off (p\<lparr>next_node := a7\<rparr>) = parallax_off p"
  "parallax_off (p\<lparr>scrollTimeout := a8\<rparr>) = parallax_off p"
  "parallax_off (p\<lparr>timers := a9\<rparr>) = parallax_off p"
  "parallax_off (p\<lparr>typing_i := b1\<rparr>) = parallax_off p"
  "parallax_off (p\<lparr>typingInterval := b2\<rparr>) = parallax_off p"
  "parallax_off (p\<lparr>next_handle := b3\<rparr>) = parallax_off p"
  "parallax_off (p\<lparr>uncaught := b4\<rparr>) = parallax_off p"
  "parallax_off (p\<lparr>effects := b5\<rparr>) = parallax_off p"
  "parallax_off (p\<lparr>typing_text := b6\<rparr>) = parallax_off p"
  "parallax_off (p\<lparr>skipButton := b7\<rparr>) = parallax_off p"
  "parallax_off (p\<lparr>skip_listener := b8\<rparr>) = parallax_off p"
  "parallax_off (p\<lparr>nav_scroll_listener := b9\<rparr>) = parallax_off p"
  "parallax_off (p\<lparr>loaded_listener := c1\<rparr>) = parallax_off p"
  "parallax_off (p\<lparr>motion_listener := c2\<rparr>) = parallax_off p"
  by (simp_all add: parallax_off_def)

lemma parallax_off_primitives [simp]:
  "parallax_off (log_effect e p) = parallax_off p"
  "parallax_off (set_sec_tabindex k v p) = parallax_off p"
  "parallax_off (update_subtitle f p) = parallax_off p"
  "parallax_off (clearTimer h p) = parallax_off p"
  "parallax_off (setTimer cb ms rep p) = parallax_off p"
  "parallax_off (appendChild el p) = parallax_off p"
  "parallax_off (addSkipToContentLink p) = parallax_off p"
  by (simp_all add: log_effect_def set_sec_tabindex_def update_subtitle_def
        clearTimer_def setTimer_def appendChild_def addSkipToContentLink_def split: option.splits)

lemma parallax_off_announce [simp]: "parallax_off (announceToScreenReader msg p) = parallax_off p"
  by (simp add: announceToScreenReader_def)

lemma parallax_off_detach [simp]: "parallax_off (detach_skip b p) = parallax_off p"
  by (simp add: detach_skip_def split: option.splits)

lemma parallax_off_removeChild [simp]: "parallax_off (settle (removeChild n p)) = parallax_off p"
  by (simp add: removeChild_def settle_def)

lemma parallax_off_navigateToSection [simp]:
  "parallax_off (navigateToSection d p) = parallax_off p"
  by (cases "getElementById p (data_section d)") (simp_all add: navigateToSection_def Let_def)

lemma parallax_off_nav_scroll [simp]: "parallax_off (nav_scroll p) = parallax_off p"
  by (cases "scrollTimeout p") (simp_all add: nav_scroll_def Let_def)

lemma parallax_off_typeWriter [simp]: "parallax_off (settle (typeWriter p)) = parallax_off p"
  by (simp add: typeWriter_def removeSkipButton_returns and_then_def settle_def)

lemma parallax_off_skip_click [simp]: "parallax_off (settle (skip_click p)) = parallax_off p"
  by (simp add: skip_click_def Let_def removeSkipButton_returns and_then_def settle_def)

lemma parallax_off_updateActiveNavigation [simp]:
  "parallax_off (settle (updateActiveNavigation p)) = parallax_off p"
proof -
  obtain ds es where "settle (updateActiveNavigation p) = p\<lparr>dots := ds, uncaught := uncaught p @ es\<rparr>"
    by (rule updateActiveNavigation_frame)
  then show ?thesis by simp
qed

lemma parallax_off_initTypingEffect [simp]: "parallax_off (initTypingEffect p) = parallax_off p"
  by (cases "subtitle p")
     (simp_all add: initTypingEffect_def createSkipAnimationButton_def Let_def)

lemma parallax_off_step: "parallax_off p \<Longrightarrow> parallax_off (step p ev)"
proof (cases ev)
  case (Fire h)
  assume a: "parallax_off p"
  show ?thesis
  proof (cases "timers p h")
    case None
    with Fire a show ?thesis by simp
  next
    case (Some t)
    with Fire a show ?thesis
      by (cases "callback t") (simp_all add: run_callback_def start_typing_def settle_def [of "Returns _"])
  qed
next
  case Frame
  assume "parallax_off p"
  with Frame show ?thesis by (simp add: parallax_off_def)
next
  case (Scroll y)
  assume a: "parallax_off p"
  let ?p2 = "if nav_scroll_listener (p\<lparr>scrollY := y\<rparr>) then nav_scroll (p\<lparr>scrollY := y\<rparr>)
             else p\<lparr>scrollY := y\<rparr>"
  have p2: "parallax_off ?p2" using a by simp
  then have "\<not> parallax_listener ?p2" unfolding parallax_off_def by blast
  with Scroll p2 show ?thesis by (simp add: Let_def)
qed (simp_all add: on_card_def)

lemma parallax_off_run: "parallax_off p \<Longrightarrow> parallax_off (run p evs)"
  unfolding run_def by (induction evs arbitrary: p) (simp_all add: parallax_off_step)

lemma parallax_off_load: "parallax_off (load (document True ds secs cs sub y))"
proof -
  let ?d = "document True ds secs cs sub y"
  let ?p1 = "settle (script_top ?d)"
  have d: "parallax_off ?d" by (simp add: parallax_off_def document_def)
  obtain ds' cs' n l es where p1: "?p1 =
      ?d\<lparr>dots := ds', cards := cs', nav_scroll_listener := n, loaded_listener := l,
         uncaught := uncaught ?d @ es\<rparr>"
    by (rule script_top_frame)
  have i1: "parallax_off ?p1" using d by (simp add: p1)
  let ?q = "initTypingEffect (addSkipToContentLink ?p1)"
  have i2: "parallax_off ?q" using i1 by simp
  then have "prefersReducedMotion ?q" unfolding parallax_off_def by blast
  then have i3: "initParallaxEffect ?q = ?q" by (simp add: initParallaxEffect_def)
  obtain ds2 es2 ml where "settle (domContentLoaded ?p1) =
       (initParallaxEffect ?q)\<lparr>dots := ds2, motion_listener := ml,
          uncaught := uncaught (initParallaxEffect ?q) @ es2\<rparr>"
    by (rule domContentLoaded_frame)
  with i2 i3 have "parallax_off (settle (domContentLoaded ?p1))" by simp
  with i1 show ?thesis by (simp add: load_def Let_def)
qed

subsection \<open>Start-up under reduced motion; firing an announcement's timer\<close>

lemmas example_defs = marker_def region_def plain_card_def portfolio_def null_page_def document_def

lemma initTypingEffect_reduced:
  assumes "prefersReducedMotion p" and "subtitle p = Some sub"
  shows "initTypingEffect p =
           p\<lparr>body := body p @ [(next_node p, skip_button_elem)], next_node := Suc (next_node p),
             typing_text := textContent sub, skipButton := Some (next_node p)\<rparr>"
  using assms
  by (simp add: initTypingEffect_def createSkipAnimationButton_def appendChild_def)

lemma load_reduced_timers: "timers (load (document True ds secs cs sub y)) = Map.empty"
proof -
  let ?d = "document True ds secs cs sub y"
  let ?p1 = "settle (script_top ?d)"
  obtain ds' cs' n l es where p1: "?p1 =
      ?d\<lparr>dots := ds', cards := cs', nav_scroll_listener := n, loaded_listener := l,
         uncaught := uncaught ?d @ es\<rparr>"
    by (rule script_top_frame)
  have t1: "timers ?p1 = Map.empty" and m1: "prefersReducedMotion ?p1"
    by (simp_all add: p1) (simp_all add: document_def)
  let ?q = "initTypingEffect (addSkipToContentLink ?p1)"
  have "timers ?q = Map.empty \<and> prefersReducedMotion ?q"
    using t1 m1
    by (cases "subtitle (addSkipToContentLink ?p1)")
       (simp_all add: initTypingEffect_def createSkipAnimationButton_def appendChild_def
          addSkipToContentLink_def)
  then have t2: "timers (initParallaxEffect ?q) = Map.empty" by (simp add: initParallaxEffect_def)
  obtain ds2 es2 ml where "settle (domContentLoaded ?p1) =
       (initParallaxEffect ?q)\<lparr>dots := ds2, motion_listener := ml,
          uncaught := uncaught (initParallaxEffect ?q) @ es2\<rparr>"
    by (rule domContentLoaded_frame)
  with t2 have "timers (settle (domContentLoaded ?p1)) = Map.empty" by simp
  with t1 show ?thesis by (simp add: load_def Let_def)
qed

lemma filter_fresh: "fresh_ids p \<Longrightarrow> filter (\<lambda>c. fst c \<noteq> next_node p) (body p) = body p"
  by (auto simp: fresh_ids_def filter_id_conv)

lemma filter_fresh_Suc:
  "fresh_ids p \<Longrightarrow> filter (\<lambda>c. fst c \<noteq> Suc (next_node p)) (body p) = body p"
  by (auto simp: fresh_ids_def filter_id_conv)

lemma fire_announcement:
  assumes "timers q h = Some \<lparr>delay = ms, repeating = False, callback = RemoveAnnouncement n\<rparr>"
    and "is_child n q"
  shows "step q (Fire h) =
           q\<lparr>timers := (timers q)(h := None), body := filter (\<lambda>c. fst c \<noteq> n) (body q),
             effects := effects q @ [RemoveChild n]\<rparr>"
  using assms by (simp add: run_callback_def fire_removal_result)

subsection \<open>An announcement stays until its own timer fires, and then is gone\<close>

lemma handles_fresh_other_fields [simp]:
  "handles_fresh (p\<lparr>dots := a1\<rparr>) = handles_fresh p"
  "handles_fresh (p\<lparr>sections := a2\<rparr>) = handles_fresh p"
  "handles_fresh (p\<lparr>cards := a3\<rparr>) = handles_fresh p"
  "handles_fresh (p\<lparr>subtitle := a4\<rparr>) = handles_fresh p"
  "handles_fresh (p\<lparr>body := a5\<rparr>) = handles_fresh p"
  "handles_fresh (p\<lparr>scrollY := a6\<rparr>) = handles_fresh p"
  "handles_fresh (p\<lparr>next_node := a7\<rparr>) = handles_fresh p"
  "handles_fresh (p\<lparr>backgroundPosition := a8\<rparr>) = handles_fresh p"
  "handles_fresh (p\<lparr>frames := a9\<rparr>) = handles_fresh p"
  "handles_fresh (p\<lparr>typing_i := b1\<rparr>) = handles_fresh p"
  "handles_fresh (p\<lparr>ticking := b2\<rparr>) = handles_fresh p"
  "handles_fresh (p\<lparr>uncaught := b4\<rparr>) = handles_fresh p"
  "handles_fresh (p\<lparr>effects := b5\<rparr>) = handles_fresh p"
  "handles_fresh (p\<lparr>typing_text := b6\<rparr>) = handles_fresh p"
  "handles_fresh (p\<lparr>skipButton := b7\<rparr>) = handles_fresh p"
  "handles_fresh (p\<lparr>skip_listener := b8\<rparr>) = handles_fresh p"
  "handles_fresh (p\<lparr>nav_scroll_listener := b9\<rparr>) = handles_fresh p"
  "handles_fresh (p\<lparr>loaded_listener := c1\<rparr>) = handles_fresh p"
  "handles_fresh (p\<lparr>motion_listener := c2\<rparr>) = handles_fresh p"
  "handles_fresh (p\<lparr>parallax_listener := c3\<rparr>) = handles_fresh p"
  by (simp_all add: handles_fresh_def)

lemma handles_fresh_primitives [simp]:
  "handles_fresh (log_effect e p) = handles_fresh p"
  "handles_fresh (set_sec_tabindex k v p) = handles_fresh p"
  "handles_fresh (update_subtitle f p) = handles_fresh p"
  "handles_fresh (appendChild el p) = handles_fresh p"
  "handles_fresh (addSkipToContentLink p) = handles_fresh p"
  "handles_fresh (detach_skip b p) = handles_fresh p"
  by (simp_all add: log_effect_def set_sec_tabindex_def update_subtitle_def
        appendChild_def addSkipToContentLink_def detach_skip_def split: option.splits)

lemma handles_fresh_clearTimer: "handles_fresh p \<Longrightarrow> handles_fresh (clearTimer h p)"
  by (cases h) (auto simp: handles_fresh_def clearTimer_def)

lemma handles_fresh_setTimer:
  "handles_fresh p \<Longrightarrow> handles_fresh (setTimer cb ms rep p)"
  by (auto simp: handles_fresh_def setTimer_def intro: less_SucI)

lemma handles_fresh_announce: "handles_fresh p \<Longrightarrow> handles_fresh (announceToScreenReader m p)"
  by (simp add: announceToScreenReader_def handles_fresh_setTimer)

lemma handles_fresh_navigateToSection:
  "handles_fresh p \<Longrightarrow> handles_fresh (navigateToSection d p)"
  by (cases "getElementById p (data_section d)")
     (simp_all add: navigateToSection_def Let_def handles_fresh_setTimer handles_fresh_announce)

lemma handles_fresh_nav_scroll: "handles_fresh p \<Longrightarrow> handles_fresh (nav_scroll p)"
  by (cases "scrollTimeout p")
     (auto simp: nav_scroll_def Let_def handles_fresh_def setTimer_def clearTimer_def
        intro: less_SucI)

lemma handles_fresh_start_typing: "handles_fresh p \<Longrightarrow> handles_fresh (start_typing p)"
  by (auto simp: start_typing_def handles_fresh_def setTimer_def intro: less_SucI)

lemma handles_fresh_typeWriter: "handles_fresh p \<Longrightarrow> handles_fresh (settle (typeWriter p))"
  by (simp add: typeWriter_def removeSkipButton_returns and_then_def settle_def
        handles_fresh_clearTimer)

lemma handles_fresh_skip_click: "handles_fresh p \<Longrightarrow> handles_fresh (settle (skip_click p))"
  by (simp add: skip_click_def Let_def removeSkipButton_returns and_then_def settle_def
        handles_fresh_clearTimer)

lemma handles_fresh_removeChild [simp]:
  "handles_fresh (settle (removeChild n p)) = handles_fresh p"
  by (simp add: removeChild_def settle_def)

lemma handles_fresh_updateActiveNavigation [simp]:
  "handles_fresh (settle (updateActiveNavigation p)) = handles_fresh p"
proof -
  obtain ds es where "settle (updateActiveNavigation p) = p\<lparr>dots := ds, uncaught := uncaught p @ es\<rparr>"
    by (rule updateActiveNavigation_frame)
  then show ?thesis by simp
qed

lemma handles_fresh_step: "handles_fresh p \<Longrightarrow> handles_fresh (step p ev)"
proof (cases ev)
  case (Fire h)
  assume a: "handles_fresh p"
  show ?thesis
  proof (cases "timers p h")
    case None
    with Fire a show ?thesis by simp
  next
    case (Some t)
    let ?q = "if repeating t then p else p\<lparr>timers := (timers p)(h := None)\<rparr>"
    have q: "handles_fresh ?q"
      using a handles_fresh_clearTimer [OF a, of "Some h"] by (simp add: clearTimer_def)
    show ?thesis
    proof (cases "callback t")
      case StartTyping
      from q have "handles_fresh (start_typing ?q)" by (rule handles_fresh_start_typing)
      with Fire Some StartTyping show ?thesis by (simp add: run_callback_def settle_def)
    next
      case TypeWriter
      from q have "handles_fresh (settle (typeWriter ?q))" by (rule handles_fresh_typeWriter)
      with Fire Some TypeWriter show ?thesis by (simp add: run_callback_def)
    next
      case (RemoveAnnouncement e)
      with Fire Some q show ?thesis by (simp add: run_callback_def)
    next
      case (RemoveTabindex k)
      with Fire Some q show ?thesis by (simp add: run_callback_def settle_def)
    next
      case UpdateActive
      with Fire Some q show ?thesis by (simp add: run_callback_def)
    qed
  qed
next
  case Frame
  assume a: "handles_fresh p"
  obtain bp tk where "fold (\<lambda>cb. parallax_frame) (frames p) (p\<lparr>frames := []\<rparr>) = p\<lparr>frames := [], backgroundPosition := bp, ticking := tk\<rparr>"
    using fold_parallax_frame by blast
  with a Frame show ?thesis by simp
next
  case (Scroll y)
  assume a: "handles_fresh p"
  then have "handles_fresh (p\<lparr>scrollY := y\<rparr>)" by simp
  with Scroll show ?thesis
    by (simp add: Let_def handles_fresh_nav_scroll parallax_scroll_def)
qed (simp_all add: handles_fresh_navigateToSection handles_fresh_skip_click on_card_def)

lemma handles_fresh_run: "handles_fresh p \<Longrightarrow> handles_fresh (run p evs)"
  unfolding run_def by (induction evs arbitrary: p) (simp_all add: handles_fresh_step)

lemma handles_fresh_load: "handles_fresh (load (document m ds secs cs sub y))"
proof -
  let ?d = "document m ds secs cs sub y"
  let ?p1 = "settle (script_top ?d)"
  have d: "handles_fresh ?d" by (simp add: handles_fresh_def document_def)
  obtain ds' cs' n l es where p1: "?p1 =
      ?d\<lparr>dots := ds', cards := cs', nav_scroll_listener := n, loaded_listener := l,
         uncaught := uncaught ?d @ es\<rparr>"
    by (rule script_top_frame)
  have i1: "handles_fresh ?p1" using d by (simp add: p1)
  let ?q = "initTypingEffect (addSkipToContentLink ?p1)"
  have "handles_fresh (addSkipToContentLink ?p1)" using i1 by simp
  then have i2: "handles_fresh ?q"
    by (cases "subtitle (addSkipToContentLink ?p1)")
       (auto simp: initTypingEffect_def createSkipAnimationButton_def Let_def handles_fresh_def
          setTimer_def appendChild_def intro: less_SucI)
  then have i3: "handles_fresh (initParallaxEffect ?q)" by (simp add: initParallaxEffect_def)
  obtain ds2 es2 ml where "settle (domContentLoaded ?p1) =
       (initParallaxEffect ?q)\<lparr>dots := ds2, motion_listener := ml,
          uncaught := uncaught (initParallaxEffect ?q) @ es2\<rparr>"
    by (rule domContentLoaded_frame)
  with i3 have "handles_fresh (settle (domContentLoaded ?p1))" by simp
  with i1 show ?thesis by (simp add: load_def Let_def)
qed

lemma handles_fresh_reachable: "handles_fresh (run (load (document m ds secs cs sub y)) evs)"
  by (intro handles_fresh_run handles_fresh_load)

lemma awaits_other_fields [simp]:
  "awaits h n a (p\<lparr>dots := a1\<rparr>) = awaits h n a p"
  "awaits h n a (p\<lparr>sections := a2\<rparr>) = awaits h n a p"
  "awaits h n a (p\<lparr>cards := a3\<rparr>) = awaits h n a p"
  "awaits h n a (p\<lparr>subtitle := a4\<rparr>) = awaits h n a p"
  "awaits h n a (p\<lparr>scrollY := a6\<rparr>) = awaits h n a p"
  "awaits h n a (p\<lparr>next_node := a7\<rparr>) = awaits h n a p"
  "awaits h n a (p\<lparr>backgroundPosition := a8\<rparr>) = awaits h n a p"
  "awaits h n a (p\<lparr>frames := a9\<rparr>) = awaits h n a p"
  "awaits h n a (p\<lparr>typing_i := b1\<rparr>) = awaits h n a p"
  "awaits h n a (p\<lparr>ticking := b2\<rparr>) = awaits h n a p"
  "awaits h n a (p\<lparr>typingInterval := b3\<rparr>) = awaits h n a p"
  "awaits h n a (p\<lparr>uncaught := b4\<rparr>) = awaits h n a p"
  "awaits h n a (p\<lparr>effects := b5\<rparr>) = awaits h n a p"
  "awaits h n a (p\<lparr>scrollTimeout := b6\<rparr>) = awaits h n a p"
  by (simp_all add: awaits_def)

lemma awaits_primitives [simp]:
  "awaits h n a (log_effect e p) = awaits h n a p"
  "awaits h n a (set_sec_tabindex k v p) = awaits h n a p"
  "awaits h n a (update_subtitle f p) = awaits h n a p"
  by (simp_all add: log_effect_def set_sec_tabindex_def update_subtitle_def split: option.splits)

lemma awaits_setTimer: "awaits h n a p \<Longrightarrow> awaits h n a (setTimer cb ms rep p)"
  by (auto simp: awaits_def setTimer_def)

lemma awaits_appendChild: "awaits h n a p \<Longrightarrow> awaits h n a (appendChild el p)"
  by (auto simp: awaits_def appendChild_def)

lemma awaits_announce: "awaits h n a p \<Longrightarrow> awaits h n a (announceToScreenReader m p)"
  by (simp add: announceToScreenReader_def awaits_setTimer awaits_appendChild)

lemma awaits_clearTimer: "awaits h n a p \<Longrightarrow> k \<noteq> Some h \<Longrightarrow> awaits h n a (clearTimer k p)"
  by (cases k) (auto simp: awaits_def clearTimer_def)

lemma awaits_detach_skip: "awaits h n a p \<Longrightarrow> b \<noteq> Some n \<Longrightarrow> awaits h n a (detach_skip b p)"
  by (cases b) (auto simp: awaits_def detach_skip_def log_effect_def)

lemma awaits_removeChild:
  "awaits h n a p \<Longrightarrow> e \<noteq> n \<Longrightarrow> awaits h n a (settle (removeChild e p))"
  by (auto simp: awaits_def removeChild_def settle_def log_effect_def)

lemma awaits_navigateToSection: "awaits h n a p \<Longrightarrow> awaits h n a (navigateToSection d p)"
  by (cases "getElementById p (data_section d)")
     (simp_all add: navigateToSection_def Let_def awaits_setTimer awaits_announce)

lemma awaits_not_scrollTimeout:
  "handles_fresh p \<Longrightarrow> awaits h n a p \<Longrightarrow> scrollTimeout p \<noteq> Some h"
  by (auto simp: handles_fresh_def awaits_def)

lemma awaits_not_typingInterval:
  "handles_fresh p \<Longrightarrow> awaits h n a p \<Longrightarrow> typingInterval p \<noteq> Some h"
  by (auto simp: handles_fresh_def awaits_def)

lemma awaits_not_skipButton:
  "page_inv p \<Longrightarrow> awaits h n a p \<Longrightarrow> skipButton p \<noteq> Some n"
  by (auto simp: page_inv_def awaits_def dest: removal_timers_pending)

lemma awaits_nav_scroll:
  assumes "handles_fresh p" and "awaits h n a p"
  shows "awaits h n a (nav_scroll p)"
proof (cases "scrollTimeout p")
  case None
  with assms(2) show ?thesis by (simp add: nav_scroll_def Let_def awaits_setTimer)
next
  case (Some k)
  with awaits_not_scrollTimeout [OF assms] have "Some k \<noteq> Some h" by simp
  with assms(2) have "awaits h n a (clearTimer (Some k) p)" by (intro awaits_clearTimer)
  with Some assms(2) show ?thesis by (simp add: nav_scroll_def Let_def awaits_setTimer)
qed

lemma awaits_typeWriter:
  assumes "page_inv p" and "handles_fresh p" and "awaits h n a p"
  shows "awaits h n a (settle (typeWriter p))"
proof (cases "typing_i p < length (typing_text p)")
  case True
  with assms(3) show ?thesis by (simp add: typeWriter_def settle_def)
next
  case False
  let ?q = "clearTimer (typingInterval p) p"
  have "awaits h n a ?q"
    using assms(3) awaits_not_typingInterval [OF assms(2,3)] by (rule awaits_clearTimer)
  then have "awaits h n a (detach_skip (skipButton p) ?q)"
    using awaits_not_skipButton [OF assms(1,3)] by (rule awaits_detach_skip)
  with False show ?thesis
    by (simp add: typeWriter_def removeSkipButton_returns and_then_def settle_def)
qed

lemma awaits_skip_click:
  assumes "page_inv p" and "handles_fresh p" and "awaits h n a p"
  shows "awaits h n a (settle (skip_click p))"
proof -
  let ?q = "update_subtitle (\<lambda>s. s\<lparr>textContent := typing_text (clearTimer (typingInterval p) p)\<rparr>)
              (clearTimer (typingInterval p) p)"
  have "awaits h n a (clearTimer (typingInterval p) p)"
    using assms(3) awaits_not_typingInterval [OF assms(2,3)] by (rule awaits_clearTimer)
  then have q: "awaits h n a ?q" by simp
  have "skipButton ?q = skipButton p"
    by (simp add: update_subtitle_def clearTimer_def split: option.splits)
  with awaits_not_skipButton [OF assms(1,3)] have "skipButton ?q \<noteq> Some n" by simp
  with q have "awaits h n a (detach_skip (skipButton ?q) ?q)" by (rule awaits_detach_skip)
  then show ?thesis
    by (simp add: skip_click_def Let_def removeSkipButton_returns and_then_def settle_def)
qed

lemma awaits_step:
  assumes i: "page_inv p" and f: "handles_fresh p" and a: "awaits h n a p" and ev: "ev \<noteq> Fire h"
  shows "awaits h n a (step p ev)"
proof (cases ev)
  case (Fire h')
  with ev have hh: "h' \<noteq> h" by simp
  show ?thesis
  proof (cases "timers p h'")
    case None
    with Fire a show ?thesis by simp
  next
    case (Some t)
    let ?q = "if repeating t then p else p\<lparr>timers := (timers p)(h' := None)\<rparr>"
    have q: "awaits h n a ?q" using a hh by (auto simp: awaits_def)
    have iq: "page_inv ?q" using i page_inv_clearTimer [OF i, of "Some h'"] by (simp add: clearTimer_def)
    have fq: "handles_fresh ?q"
      using f handles_fresh_clearTimer [OF f, of "Some h'"] by (simp add: clearTimer_def)
    show ?thesis
    proof (cases "callback t")
      case StartTyping
      from q have "awaits h n a (start_typing ?q)"
        by (simp add: start_typing_def awaits_setTimer)
      with Fire Some StartTyping show ?thesis by (simp add: run_callback_def settle_def)
    next
      case TypeWriter
      from iq fq q have "awaits h n a (settle (typeWriter ?q))" by (rule awaits_typeWriter)
      with Fire Some TypeWriter show ?thesis by (simp add: run_callback_def)
    next
      case (RemoveAnnouncement e)
      have "e \<noteq> n"
      proof
        assume "e = n"
        with RemoveAnnouncement have c: "callback t = RemoveAnnouncement n" by simp
        from i have r: "removal_timers p" by (simp add: page_inv_def)
        from a have "timers p h = Some \<lparr>delay = 1000, repeating = False, callback = RemoveAnnouncement n\<rparr>"
          by (simp add: awaits_def)
        from removal_timers_unique [OF r Some this c] hh show False by simp
      qed
      with q have "awaits h n a (settle (removeChild e ?q))" by (rule awaits_removeChild)
      with Fire Some RemoveAnnouncement show ?thesis by (simp add: run_callback_def)
    next
      case (RemoveTabindex k)
      with Fire Some q show ?thesis by (simp add: run_callback_def settle_def)
    next
      case UpdateActive
      obtain ds es where "settle (updateActiveNavigation ?q) = ?q\<lparr>dots := ds, uncaught := uncaught ?q @ es\<rparr>"
        by (rule updateActiveNavigation_frame)
      with Fire Some UpdateActive q show ?thesis by (simp add: run_callback_def)
    qed
  qed
next
  case Frame
  obtain bp tk where "fold (\<lambda>cb. parallax_frame) (frames p) (p\<lparr>frames := []\<rparr>) = p\<lparr>frames := [], backgroundPosition := bp, ticking := tk\<rparr>"
    using fold_parallax_frame by blast
  with a Frame show ?thesis by simp
next
  case (Scroll y)
  have "handles_fresh (p\<lparr>scrollY := y\<rparr>)" "awaits h n a (p\<lparr>scrollY := y\<rparr>)" using f a by simp_all
  then have "awaits h n a (nav_scroll (p\<lparr>scrollY := y\<rparr>))" by (rule awaits_nav_scroll)
  with Scroll a show ?thesis
    by (simp add: Let_def parallax_scroll_def)
next
  case Click_skip
  with awaits_skip_click [OF i f a] a show ?thesis by simp
qed (use a in \<open>simp_all add: awaits_navigateToSection on_card_def\<close>)

lemma awaits_run:
  assumes "page_inv p" and "handles_fresh p" and "awaits h n a p"
  shows "awaits h n a (run p (filter (\<lambda>e. e \<noteq> Fire h) evs))"
  using assms unfolding run_def
  by (induction evs arbitrary: p) (simp_all add: awaits_step page_inv_step handles_fresh_step)

lemma gone_other_fields [simp]:
  "gone n (p\<lparr>dots := a1\<rparr>) = gone n p"
  "gone n (p\<lparr>sections := a2\<rparr>) = gone n p"
  "gone n (p\<lparr>cards := a3\<rparr>) = gone n p"
  "gone n (p\<lparr>subtitle := a4\<rparr>) = gone n p"
  "gone n (p\<lparr>scrollY := a6\<rparr>) = gone n p"
  "gone n (p\<lparr>timers := a7\<rparr>) = gone n p"
  "gone n (p\<lparr>backgroundPosition := a8\<rparr>) = gone n p"
  "gone n (p\<lparr>frames := a9\<rparr>) = gone n p"
  "gone n (p\<lparr>typing_i := b1\<rparr>) = gone n p"
  "gone n (p\<lparr>ticking := b2\<rparr>) = gone n p"
  "gone n (p\<lparr>typingInterval := b3\<rparr>) = gone n p"
  "gone n (p\<lparr>uncaught := b4\<rparr>) = gone n p"
  "gone n (p\<lparr>effects := b5\<rparr>) = gone n p"
  "gone n (p\<lparr>scrollTimeout := b6\<rparr>) = gone n p"
  "gone n (p\<lparr>next_handle := b7\<rparr>) = gone n p"
  by (simp_all add: gone_def is_child_def)

lemma gone_primitives [simp]:
  "gone n (log_effect e p) = gone n p"
  "gone n (set_sec_tabindex k v p) = gone n p"
  "gone n (update_subtitle f p) = gone n p"
  "gone n (setTimer cb ms rep p) = gone n p"
  "gone n (clearTimer h p) = gone n p"
  by (simp_all add: log_effect_def set_sec_tabindex_def update_subtitle_def setTimer_def
        clearTimer_def split: option.splits)

lemma gone_appendChild: "gone n p \<Longrightarrow> gone n (appendChild el p)"
  by (auto simp: gone_def is_child_def appendChild_def)

lemma gone_announce: "gone n p \<Longrightarrow> gone n (announceToScreenReader m p)"
  by (simp add: announceToScreenReader_def gone_appendChild)

lemma gone_detach_skip: "gone n p \<Longrightarrow> gone n (detach_skip b p)"
  by (cases b) (auto simp: gone_def is_child_def detach_skip_def log_effect_def)

lemma gone_removeChild: "gone n p \<Longrightarrow> gone n (settle (removeChild e p))"
  by (auto simp: gone_def is_child_def removeChild_def settle_def log_effect_def)

lemma gone_navigateToSection: "gone n p \<Longrightarrow> gone n (navigateToSection d p)"
  by (cases "getElementById p (data_section d)")
     (simp_all add: navigateToSection_def Let_def gone_announce)

lemma gone_nav_scroll [simp]: "gone n (nav_scroll p) = gone n p"
  by (cases "scrollTimeout p") (simp_all add: nav_scroll_def Let_def)

lemma gone_typeWriter: "gone n p \<Longrightarrow> gone n (settle (typeWriter p))"
  by (simp add: typeWriter_def removeSkipButton_returns and_then_def settle_def gone_detach_skip)

lemma gone_skip_click: "gone n p \<Longrightarrow> gone n (settle (skip_click p))"
  by (simp add: skip_click_def Let_def removeSkipButton_returns and_then_def settle_def
        gone_detach_skip)

lemma gone_step: "gone n p \<Longrightarrow> gone n (step p ev)"
proof (cases ev)
  case (Fire h)
  assume a: "gone n p"
  show ?thesis
  proof (cases "timers p h")
    case None
    with Fire a show ?thesis by simp
  next
    case (Some t)
    let ?q = "if repeating t then p else p\<lparr>timers := (timers p)(h := None)\<rparr>"
    have q: "gone n ?q" using a by simp
    show ?thesis
    proof (cases "callback t")
      case StartTyping
      with Fire Some q show ?thesis by (simp add: run_callback_def settle_def start_typing_def)
    next
      case TypeWriter
      from q have "gone n (settle (typeWriter ?q))" by (rule gone_typeWriter)
      with Fire Some TypeWriter show ?thesis by (simp add: run_callback_def)
    next
      case (RemoveAnnouncement e)
      from q have "gone n (settle (removeChild e ?q))" by (rule gone_removeChild)
      with Fire Some RemoveAnnouncement show ?thesis by (simp add: run_callback_def)
    next
      case (RemoveTabindex k)
      with Fire Some q show ?thesis by (simp add: run_callback_def settle_def)
    next
      case UpdateActive
      obtain ds es where "settle (updateActiveNavigation ?q) = ?q\<lparr>dots := ds, uncaught := uncaught ?q @ es\<rparr>"
        by (rule updateActiveNavigation_frame)
      with Fire Some UpdateActive q show ?thesis by (simp add: run_callback_def)
    qed
  qed
next
  case Frame
  assume a: "gone n p"
  obtain bp tk where "fold (\<lambda>cb. parallax_frame) (frames p) (p\<lparr>frames := []\<rparr>) = p\<lparr>frames := [], backgroundPosition := bp, ticking := tk\<rparr>"
    using fold_parallax_frame by blast
  with a Frame show ?thesis by simp
next
  case (Scroll y)
  assume "gone n p"
  with Scroll show ?thesis by (simp add: Let_def parallax_scroll_def)
qed (simp_all add: gone_navigateToSection gone_skip_click on_card_def)

lemma gone_run: "gone n p \<Longrightarrow> gone n (run p evs)"
  unfolding run_def by (induction evs arbitrary: p) (simp_all add: gone_step)

lemma awaits_fire:
  assumes "fresh_ids p" and "awaits h n a p"
  shows "gone n (step p (Fire h))"
proof -
  from assms(2) have t: "timers p h = Some \<lparr>delay = 1000, repeating = False, callback = RemoveAnnouncement n\<rparr>"
    and b: "(n, a) \<in> set (body p)" by (simp_all add: awaits_def)
  from b have c: "is_child n p" by (force simp: is_child_def)
  with assms(1) have "n < next_node p" by (rule is_child_fresh)
  then show ?thesis
    unfolding fire_announcement [OF t c] by (auto simp: gone_def is_child_def)
qed

lemma run_append: "run p (xs @ ys) = run (run p xs) ys"
  by (simp add: run_def)

lemma announce_awaits:
  "awaits (next_handle p) (next_node p) (announcement msg) (announceToScreenReader msg p)"
  by (simp add: awaits_def announce_fields)

lemma announcement_stays_until_fired:
  assumes "page_inv p" and "handles_fresh p"
  shows "(next_node p, announcement msg) \<in> set (body (run (announceToScreenReader msg p)
            (filter (\<lambda>e. e \<noteq> Fire (next_handle p)) evs2)))
       \<and> \<not> is_child (next_node p) (run (announceToScreenReader msg p)
            (filter (\<lambda>e. e \<noteq> Fire (next_handle p)) evs2 @ Fire (next_handle p) # evs3))"
proof -
  let ?p1 = "announceToScreenReader msg p"
  let ?h = "next_handle p" and ?n = "next_node p"
  let ?q = "run ?p1 (filter (\<lambda>e. e \<noteq> Fire ?h) evs2)"
  have i1: "page_inv ?p1" using assms(1) by (rule page_inv_announce)
  have f1: "handles_fresh ?p1" using assms(2) by (rule handles_fresh_announce)
  have a: "awaits ?h ?n (announcement msg) ?q"
    using i1 f1 announce_awaits by (rule awaits_run)
  have "page_inv ?q" using i1 by (rule page_inv_run)
  then have "fresh_ids ?q" by (simp add: page_inv_def)
  then have "gone ?n (step ?q (Fire ?h))" using a by (rule awaits_fire)
  then have "gone ?n (run (step ?q (Fire ?h)) evs3)" by (rule gone_run)
  then have "\<not> is_child ?n (run (step ?q (Fire ?h)) evs3)" unfolding gone_def by blast
  moreover have "run ?p1 (filter (\<lambda>e. e \<noteq> Fire ?h) evs2 @ Fire ?h # evs3) =
      run (step ?q (Fire ?h)) evs3"
    by (simp only: run_def foldl_append foldl_Cons)
  ultimately have "\<not> is_child ?n (run ?p1 (filter (\<lambda>e. e \<noteq> Fire ?h) evs2 @ Fire ?h # evs3))"
    by simp
  with a show ?thesis by (simp add: awaits_def)
qed

subsection \<open>What the skip handler leaves\<close>

lemma skip_click_result:
  "settle (skip_click p) =
     update_subtitle (\<lambda>s. s\<lparr>sub_aria_live := None\<rparr>)
       (detach_skip (skipButton p)
          (update_subtitle (\<lambda>s. s\<lparr>textContent := typing_text p\<rparr>)
             (clearTimer (typingInterval p) p)))"
proof -
  have "typing_text (clearTimer (typingInterval p) p) = typing_text p"
    by (cases "typingInterval p") (simp_all add: clearTimer_def)
  moreover have "skipButton (update_subtitle (\<lambda>s. s\<lparr>textContent := typing_text p\<rparr>)
             (clearTimer (typingInterval p) p)) = skipButton p"
    by (cases "typingInterval p") (simp_all add: clearTimer_def update_subtitle_def)
  ultimately show ?thesis
    by (simp add: skip_click_def Let_def removeSkipButton_returns and_then_def settle_def)
qed

lemma detach_skip_twice: "detach_skip b (detach_skip b p) = detach_skip b p"
  by (cases b) (auto simp: detach_skip_def log_effect_def is_child_def)

lemma skip_click_fields:
  "subtitle (settle (skip_click p)) =
     map_option (\<lambda>s. s\<lparr>textContent := typing_text p, sub_aria_live := None\<rparr>) (subtitle p)"
  "timers (settle (skip_click p)) = timers (clearTimer (typingInterval p) p)"
  "typingInterval (settle (skip_click p)) = typingInterval p"
  "typing_text (settle (skip_click p)) = typing_text p"
  "skipButton (settle (skip_click p)) = skipButton p"
  "body (settle (skip_click p)) = body (detach_skip (skipButton p) p)"
  by (cases "skipButton p"; cases "typingInterval p"; cases "subtitle p";
      simp add: skip_click_result update_subtitle_def detach_skip_def clearTimer_def
        log_effect_def is_child_def)+

subsection \<open>Under reduced motion the skip button stays\<close>

lemma dormant_button_other_fields [simp]:
  "dormant_button b (p\<lparr>dots := a1\<rparr>) = dormant_button b p"
  "dormant_button b (p\<lparr>sections := a2\<rparr>) = dormant_button b p"
  "dormant_button b (p\<lparr>cards := a3\<rparr>) = dormant_button b p"
  "dormant_button b (p\<lparr>subtitle := a4\<rparr>) = dormant_button b p"
  "dormant_button b (p\<lparr>scrollY := a6\<rparr>) = dormant_button b p"
  "dormant_button b (p\<lparr>next_node := a7\<rparr>) = dormant_button b p"
  "dormant_button b (p\<lparr>backgroundPosition := a8\<rparr>) = dormant_button b p"
  "dormant_button b (p\<lparr>frames := a9\<rparr>) = dormant_button b p"
  "dormant_button b (p\<lparr>typing_i := b1\<rparr>) = dormant_button b p"
  "dormant_button b (p\<lparr>ticking := b2\<rparr>) = dormant_button b p"
  "dormant_button b (p\<lparr>typingInterval := b3\<rparr>) = dormant_button b p"
  "dormant_button b (p\<lparr>uncaught := b4\<rparr>) = dormant_button b p"
  "dormant_button b (p\<lparr>effects := b5\<rparr>) = dormant_button b p"
  "dormant_button b (p\<lparr>scrollTimeout := b6\<rparr>) = dormant_button b p"
  "dormant_button b (p\<lparr>next_handle := b7\<rparr>) = dormant_button b p"
  "dormant_button b (p\<lparr>motion_listener := b8\<rparr>) = dormant_button b p"
  "dormant_button b (p\<lparr>parallax_listener := b9\<rparr>) = dormant_button b p"
  by (simp_all add: dormant_button_def is_child_def)

lemma dormant_button_primitives [simp]:
  "dormant_button b (log_effect e p) = dormant_button b p"
  "dormant_button b (set_sec_tabindex k v p) = dormant_button b p"
  "dormant_button b (update_subtitle f p) = dormant_button b p"
  by (simp_all add: log_effect_def set_sec_tabindex_def update_subtitle_def split: option.splits)

lemma dormant_button_setTimer:
  "dormant_button b p \<Longrightarrow> cb \<noteq> TypeWriter \<Longrightarrow> cb \<noteq> StartTyping \<Longrightarrow>
     dormant_button b (setTimer cb ms rep p)"
  by (auto simp: dormant_button_def setTimer_def is_child_def)

lemma dormant_button_clearTimer: "dormant_button b p \<Longrightarrow> dormant_button b (clearTimer h p)"
  by (cases h) (auto simp: dormant_button_def clearTimer_def is_child_def)

lemma dormant_button_announce:
  "dormant_button b p \<Longrightarrow> dormant_button b (announceToScreenReader m p)"
  by (auto simp: dormant_button_def announce_fields is_child_announce)

lemma dormant_button_removeChild:
  "dormant_button b p \<Longrightarrow> e \<noteq> b \<Longrightarrow> dormant_button b (settle (removeChild e p))"
  by (auto simp: dormant_button_def removeChild_def settle_def log_effect_def is_child_def)

lemma dormant_button_navigateToSection:
  "dormant_button b p \<Longrightarrow> dormant_button b (navigateToSection d p)"
  by (cases "getElementById p (data_section d)")
     (simp_all add: navigateToSection_def Let_def dormant_button_setTimer dormant_button_announce)

lemma dormant_button_nav_scroll: "dormant_button b p \<Longrightarrow> dormant_button b (nav_scroll p)"
  by (cases "scrollTimeout p")
     (simp_all add: nav_scroll_def Let_def dormant_button_setTimer dormant_button_clearTimer)

lemma dormant_button_step:
  assumes i: "page_inv p" and a: "dormant_button b p"
  shows "dormant_button b (step p ev)"
proof (cases ev)
  case (Fire h)
  show ?thesis
  proof (cases "timers p h")
    case None
    with Fire a show ?thesis by simp
  next
    case (Some t)
    let ?q = "if repeating t then p else p\<lparr>timers := (timers p)(h := None)\<rparr>"
    have q: "dormant_button b ?q"
      using a dormant_button_clearTimer [OF a, of "Some h"] by (simp add: clearTimer_def)
    from a Some have nt: "callback t \<noteq> TypeWriter" "callback t \<noteq> StartTyping"
      by (auto simp: dormant_button_def)
    show ?thesis
    proof (cases "callback t")
      case StartTyping
      with nt show ?thesis by simp
    next
      case TypeWriter
      with nt show ?thesis by simp
    next
      case (RemoveAnnouncement e)
      from i have r: "removal_timers p" by (simp add: page_inv_def)
      from removal_timers_pending [OF r Some RemoveAnnouncement] a have "e \<noteq> b"
        by (auto simp: dormant_button_def)
      with q have "dormant_button b (settle (removeChild e ?q))" by (rule dormant_button_removeChild)
      with Fire Some RemoveAnnouncement show ?thesis by (simp add: run_callback_def)
    next
      case (RemoveTabindex k)
      with Fire Some q show ?thesis by (simp add: run_callback_def settle_def)
    next
      case UpdateActive
      obtain ds es where "settle (updateActiveNavigation ?q) = ?q\<lparr>dots := ds, uncaught := uncaught ?q @ es\<rparr>"
        by (rule updateActiveNavigation_frame)
      with Fire Some UpdateActive q show ?thesis by (simp add: run_callback_def)
    qed
  qed
next
  case Frame
  obtain bp tk where "fold (\<lambda>cb. parallax_frame) (frames p) (p\<lparr>frames := []\<rparr>) = p\<lparr>frames := [], backgroundPosition := bp, ticking := tk\<rparr>"
    using fold_parallax_frame by blast
  with a Frame show ?thesis by simp
next
  case (Scroll y)
  have "dormant_button b (p\<lparr>scrollY := y\<rparr>)" using a by simp
  then have "dormant_button b (nav_scroll (p\<lparr>scrollY := y\<rparr>))" by (rule dormant_button_nav_scroll)
  with Scroll a show ?thesis by (simp add: Let_def parallax_scroll_def)
next
  case Click_skip
  with a show ?thesis by (simp add: dormant_button_def)
qed (use a in \<open>simp_all add: dormant_button_navigateToSection on_card_def\<close>)

lemma dormant_button_run:
  "page_inv p \<Longrightarrow> dormant_button b p \<Longrightarrow> dormant_button b (run p evs)"
  unfolding run_def
  by (induction evs arbitrary: p) (simp_all add: dormant_button_step page_inv_step)

lemma dormant_button_load:
  "dormant_button 1 (load (document True ds secs cs (Some sub) y)) \<or>
   \<not> loaded_listener (settle (script_top (document True ds secs cs (Some sub) y)))"
proof -
  let ?d = "document True ds secs cs (Some sub) y"
  let ?p1 = "settle (script_top ?d)"
  obtain ds' cs' n l es where p1: "?p1 =
      ?d\<lparr>dots := ds', cards := cs', nav_scroll_listener := n, loaded_listener := l,
         uncaught := uncaught ?d @ es\<rparr>"
    by (rule script_top_frame)
  let ?q = "initTypingEffect (addSkipToContentLink ?p1)"
  have q: "dormant_button 1 ?q \<and> prefersReducedMotion ?q"
    by (simp add: p1)
       (simp add: document_def addSkipToContentLink_def initTypingEffect_reduced
          dormant_button_def is_child_def)
  then have i3: "dormant_button 1 (initParallaxEffect ?q)" by (simp add: initParallaxEffect_def)
  obtain ds2 es2 ml where "settle (domContentLoaded ?p1) =
       (initParallaxEffect ?q)\<lparr>dots := ds2, motion_listener := ml,
          uncaught := uncaught (initParallaxEffect ?q) @ es2\<rparr>"
    by (rule domContentLoaded_frame)
  with i3 have "dormant_button 1 (settle (domContentLoaded ?p1))" by simp
  then show ?thesis by (simp add: load_def Let_def)
qed

subsection \<open>A marker without a target id: start-up stops at line 13\<close>





lemma unattached_other_fields [simp]:
  "unattached n (p\<lparr>sections := a2\<rparr>) = unattached n p"
  "unattached n (p\<lparr>cards := a3\<rparr>) = unattached n p"
  "unattached n (p\<lparr>subtitle := a4\<rparr>) = unattached n p"
  "unattached n (p\<lparr>body := a5\<rparr>) = unattached n p"
  "unattached n (p\<lparr>scrollY := a6\<rparr>) = unattached n p"
  "unattached n (p\<lparr>next_node := a7\<rparr>) = unattached n p"
  "unattached n (p\<lparr>backgroundPosition := a8\<rparr>) = unattached n p"
  "unattached n (p\<lparr>frames := a9\<rparr>) = unattached n p"
  "unattached n (p\<lparr>typing_i := b1\<rparr>) = unattached n p"
  "unattached n (p\<lparr>ticking := b2\<rparr>) = unattached n p"
  "unattached n (p\<lparr>typingInterval := b3\<rparr>) = unattached n p"
  "unattached n (p\<lparr>uncaught := b4\<rparr>) = unattached n p"
  "unattached n (p\<lparr>effects := b5\<rparr>) = unattached n p"
  "unattached n (p\<lparr>scrollTimeout := b6\<rparr>) = unattached n p"
  "unattached n (p\<lparr>next_handle := b7\<rparr>) = unattached n p"
  "unattached n (p\<lparr>motion_listener := b8\<rparr>) = unattached n p"
  "unattached n (p\<lparr>parallax_listener := b9\<rparr>) = unattached n p"
  "unattached n (p\<lparr>timers := c1\<rparr>) = unattached n p"
  "unattached n (p\<lparr>typing_text := c2\<rparr>) = unattached n p"
  "unattached n (p\<lparr>skipButton := c3\<rparr>) = unattached n p"
  "unattached n (p\<lparr>skip_listener := c4\<rparr>) = unattached n p"
  "unattached n (p\<lparr>nav_scroll_listener := c5\<rparr>) = unattached n p"
  "unattached n (p\<lparr>loaded_listener := c6\<rparr>) = unattached n p"
  by (simp_all add: unattached_def)

lemma unattached_primitives [simp]:
  "unattached n (log_effect e p) = unattached n p"
  "unattached n (set_sec_tabindex k v p) = unattached n p"
  "unattached n (update_subtitle f p) = unattached n p"
  "unattached n (setTimer cb ms rep p) = unattached n p"
  "unattached n (clearTimer h p) = unattached n p"
  "unattached n (appendChild el p) = unattached n p"
  "unattached n (addSkipToContentLink p) = unattached n p"
  "unattached n (detach_skip b p) = unattached n p"
  "unattached n (announceToScreenReader msg p) = unattached n p"
  by (simp_all add: log_effect_def set_sec_tabindex_def update_subtitle_def setTimer_def
        clearTimer_def appendChild_def addSkipToContentLink_def detach_skip_def
        announceToScreenReader_def split: option.splits)

lemma unattached_removeChild [simp]: "unattached n (settle (removeChild e p)) = unattached n p"
  by (simp add: removeChild_def settle_def)

lemma unattached_navigateToSection [simp]:
  "unattached n (navigateToSection d p) = unattached n p"
  by (cases "getElementById p (data_section d)") (simp_all add: navigateToSection_def Let_def)

lemma unattached_nav_scroll [simp]: "unattached n (nav_scroll p) = unattached n p"
  by (cases "scrollTimeout p") (simp_all add: nav_scroll_def Let_def)

lemma unattached_typeWriter [simp]: "unattached n (settle (typeWriter p)) = unattached n p"
  by (simp add: typeWriter_def removeSkipButton_returns and_then_def settle_def)

lemma unattached_skip_click [simp]: "unattached n (settle (skip_click p)) = unattached n p"
  by (simp add: skip_click_def Let_def removeSkipButton_returns and_then_def settle_def)

lemma unattached_initTypingEffect [simp]: "unattached n (initTypingEffect p) = unattached n p"
  by (cases "subtitle p")
     (simp_all add: initTypingEffect_def createSkipAnimationButton_def Let_def)

lemma unattached_initParallaxEffect [simp]: "unattached n (initParallaxEffect p) = unattached n p"
  by (simp add: initParallaxEffect_def)






subsection \<open>The skip button from start-up to its removal\<close>

text \<open>With animation allowed and every marker carrying a target id, start-up
  creates the skip button as the second child of the body, attaches its
  handler and sets the timer of line 170.  When that timer fires, the interval
  of line 171 starts; each of its ticks emits one character while one is left;
  the first tick that finds none left clears the interval and removes the
  button.\<close>

lemma skip_ready_other_fields [simp]:
  "skip_ready b (p\<lparr>dots := a1\<rparr>) = skip_ready b p"
  "skip_ready b (p\<lparr>sections := a2\<rparr>) = skip_ready b p"
  "skip_ready b (p\<lparr>cards := a3\<rparr>) = skip_ready b p"
  "skip_ready b (p\<lparr>subtitle := a4\<rparr>) = skip_ready b p"
  "skip_ready b (p\<lparr>body := a5\<rparr>) = skip_ready b p"
  "skip_ready b (p\<lparr>scrollY := a6\<rparr>) = skip_ready b p"
  "skip_ready b (p\<lparr>next_node := a7\<rparr>) = skip_ready b p"
  "skip_ready b (p\<lparr>backgroundPosition := a8\<rparr>) = skip_ready b p"
  "skip_ready b (p\<lparr>frames := a9\<rparr>) = skip_ready b p"
  "skip_ready b (p\<lparr>typing_i := b1\<rparr>) = skip_ready b p"
  "skip_ready b (p\<lparr>ticking := b2\<rparr>) = skip_ready b p"
  "skip_ready b (p\<lparr>typingInterval := b3\<rparr>) = skip_ready b p"
  "skip_ready b (p\<lparr>uncaught := b4\<rparr>) = skip_ready b p"
  "skip_ready b (p\<lparr>effects := b5\<rparr>) = skip_ready b p"
  "skip_ready b (p\<lparr>scrollTimeout := b6\<rparr>) = skip_ready b p"
  "skip_ready b (p\<lparr>next_handle := b7\<rparr>) = skip_ready b p"
  "skip_ready b (p\<lparr>motion_listener := b8\<rparr>) = skip_ready b p"
  "skip_ready b (p\<lparr>parallax_listener := b9\<rparr>) = skip_ready b p"
  "skip_ready b (p\<lparr>timers := c1\<rparr>) = skip_ready b p"
  "skip_ready b (p\<lparr>typing_text := c2\<rparr>) = skip_ready b p"
  by (simp_all add: skip_ready_def)

lemma skip_ready_primitives [simp]:
  "skip_ready b (log_effect e p) = skip_ready b p"
  "skip_ready b (set_sec_tabindex k v p) = skip_ready b p"
  "skip_ready b (update_subtitle f p) = skip_ready b p"
  "skip_ready b (setTimer cb ms rep p) = skip_ready b p"
  "skip_ready b (clearTimer h p) = skip_ready b p"
  "skip_ready b (appendChild el p) = skip_ready b p"
  "skip_ready b (detach_skip x p) = skip_ready b p"
  "skip_ready b (announceToScreenReader msg p) = skip_ready b p"
  by (simp_all add: log_effect_def set_sec_tabindex_def update_subtitle_def setTimer_def
        clearTimer_def appendChild_def detach_skip_def
        announceToScreenReader_def split: option.splits)

lemma skip_ready_removeChild [simp]: "skip_ready b (settle (removeChild e p)) = skip_ready b p"
  by (simp add: removeChild_def settle_def)

lemma skip_ready_navigateToSection [simp]:
  "skip_ready b (navigateToSection d p) = skip_ready b p"
  by (cases "getElementById p (data_section d)") (simp_all add: navigateToSection_def Let_def)

lemma skip_ready_nav_scroll [simp]: "skip_ready b (nav_scroll p) = skip_ready b p"
  by (cases "scrollTimeout p") (simp_all add: nav_scroll_def Let_def)

lemma skip_ready_typeWriter [simp]: "skip_ready b (settle (typeWriter p)) = skip_ready b p"
  by (simp add: typeWriter_def removeSkipButton_returns and_then_def settle_def)

lemma skip_ready_skip_click [simp]: "skip_ready b (settle (skip_click p)) = skip_ready b p"
  by (simp add: skip_click_def Let_def removeSkipButton_returns and_then_def settle_def)

lemma skip_ready_updateActiveNavigation [simp]:
  "skip_ready b (settle (updateActiveNavigation p)) = skip_ready b p"
proof -
  obtain ds es where "settle (updateActiveNavigation p) = p\<lparr>dots := ds, uncaught := uncaught p @ es\<rparr>"
    by (rule updateActiveNavigation_frame)
  then show ?thesis by simp
qed

lemma skip_ready_step: "skip_ready b p \<Longrightarrow> skip_ready b (step p ev)"
proof (cases ev)
  case (Fire h)
  assume a: "skip_ready b p"
  show ?thesis
  proof (cases "timers p h")
    case None
    with Fire a show ?thesis by simp
  next
    case (Some t)
    with Fire a show ?thesis
      by (cases "callback t") (simp_all add: run_callback_def start_typing_def settle_def [of "Returns _"])
  qed
next
  case Frame
  assume a: "skip_ready b p"
  obtain bp tk where "fold (\<lambda>cb. parallax_frame) (frames p) (p\<lparr>frames := []\<rparr>) = p\<lparr>frames := [], backgroundPosition := bp, ticking := tk\<rparr>"
    using fold_parallax_frame by blast
  with a Frame show ?thesis by simp
next
  case (Scroll y)
  assume "skip_ready b p"
  with Scroll show ?thesis by (simp add: Let_def parallax_scroll_def)
qed (simp_all add: on_card_def)

lemma skip_ready_run: "skip_ready b p \<Longrightarrow> skip_ready b (run p evs)"
  unfolding run_def by (induction evs arbitrary: p) (simp_all add: skip_ready_step)

lemma forEach_init_dot_returns:
  "list_all (\<lambda>d. data_section d \<noteq> None) ds \<Longrightarrow> \<exists>ys. forEach_result init_dot ds = Returns ys"
  by (induction ds) (auto simp: init_dot_def Let_def)

lemma initTypingEffect_animated:
  assumes "\<not> prefersReducedMotion p" and "subtitle p = Some sub"
  shows "initTypingEffect p =
           p\<lparr>body := body p @ [(next_node p, skip_button_elem)], next_node := Suc (next_node p),
             typing_text := textContent sub, skipButton := Some (next_node p),
             subtitle := Some (sub\<lparr>textContent := [], sub_aria_live := Some ''polite''\<rparr>),
             typing_i := 0, typingInterval := None,
             timers := (timers p)(next_handle p \<mapsto>
                          \<lparr>delay = 1000, repeating = False, callback = StartTyping\<rparr>),
             next_handle := Suc (next_handle p), skip_listener := True\<rparr>"
  using assms
  by (simp add: initTypingEffect_def createSkipAnimationButton_def appendChild_def setTimer_def)

lemma load_animated:
  fixes ds secs cs sub y
  assumes "list_all (\<lambda>d. data_section d \<noteq> None) ds"
  defines "p0 \<equiv> load (document False ds secs cs (Some sub) y)"
  shows "body p0 = [(0, skip_link_elem), (1, skip_button_elem)]"
    and "skipButton p0 = Some 1" and "skip_listener p0"
    and "timers p0 = [1 \<mapsto> \<lparr>delay = 1000, repeating = False, callback = StartTyping\<rparr>]"
    and "next_handle p0 = 2" and "typing_text p0 = textContent sub" and "typing_i p0 = 0"
    and "typingInterval p0 = None"
    and "subtitle p0 = Some (sub\<lparr>textContent := [], sub_aria_live := Some ''polite''\<rparr>)"
proof -
  let ?d = "document False ds secs cs (Some sub) y"
  from forEach_init_dot_returns [OF assms(1)] obtain ys
    where r: "forEach_result init_dot ds = Returns ys" ..
  have p1: "settle (script_top ?d) =
      ?d\<lparr>dots := ys, nav_scroll_listener := True, cards := map init_card cs, loaded_listener := True\<rparr>"
  proof -
    have "dots ?d = ds" "cards ?d = cs" by (simp_all add: document_def)
    then show ?thesis by (simp add: script_top_def settle_def r)
  qed
  let ?p1 = "settle (script_top ?d)"
  let ?q = "initTypingEffect (addSkipToContentLink ?p1)"
  have q: "?q = (addSkipToContentLink ?p1)
      \<lparr>body := [(0, skip_link_elem), (1, skip_button_elem)], next_node := 2,
        typing_text := textContent sub, skipButton := Some 1,
        subtitle := Some (sub\<lparr>textContent := [], sub_aria_live := Some ''polite''\<rparr>),
        typing_i := 0, typingInterval := None,
        timers := [1 \<mapsto> \<lparr>delay = 1000, repeating = False, callback = StartTyping\<rparr>],
        next_handle := 2, skip_listener := True\<rparr>"
  proof -
    let ?a = "addSkipToContentLink ?p1"
    have a: "\<not> prefersReducedMotion ?a" "subtitle ?a = Some sub" "body ?a = [(0, skip_link_elem)]"
      "next_node ?a = 1" "timers ?a = Map.empty" "next_handle ?a = 1"
      by (simp_all add: p1 addSkipToContentLink_def) (simp_all add: document_def)
    show ?thesis
      unfolding initTypingEffect_animated [OF a(1,2)] by (simp add: a)
  qed
  obtain ds2 es2 ml where l: "settle (domContentLoaded ?p1) =
       (initParallaxEffect ?q)\<lparr>dots := ds2, motion_listener := ml,
          uncaught := uncaught (initParallaxEffect ?q) @ es2\<rparr>"
    by (rule domContentLoaded_frame)
  have "loaded_listener ?p1" by (simp add: p1)
  then have p0: "p0 = (initParallaxEffect ?q)\<lparr>dots := ds2, motion_listener := ml,
          uncaught := uncaught (initParallaxEffect ?q) @ es2\<rparr>"
    unfolding p0_def by (simp add: load_def Let_def l)
  show "body p0 = [(0, skip_link_elem), (1, skip_button_elem)]"
    and "skipButton p0 = Some 1" and "skip_listener p0"
    and "timers p0 = [1 \<mapsto> \<lparr>delay = 1000, repeating = False, callback = StartTyping\<rparr>]"
    and "next_handle p0 = 2" and "typing_text p0 = textContent sub" and "typing_i p0 = 0"
    and "typingInterval p0 = None"
    and "subtitle p0 = Some (sub\<lparr>textContent := [], sub_aria_live := Some ''polite''\<rparr>)"
    by (simp_all add: p0 initParallaxEffect_def q)
qed

lemma typing_starts:
  assumes "timers p h0 = Some \<lparr>delay = 1000, repeating = False, callback = StartTyping\<rparr>"
    and "skipButton p = Some b" and "is_child b p" and "typing_i p = 0"
    and "map_option textContent (subtitle p) = Some []"
  shows "typing_at (next_handle p) b (typing_text p) 0 (step p (Fire h0))"
  using assms
  by (simp add: typing_at_def run_callback_def settle_def start_typing_def setTimer_def is_child_def)

lemma typing_tick:
  assumes "typing_at h b text k p" and "k < length text"
  shows "typing_at h b text (Suc k) (step p (Fire h))"
proof -
  from assms have t: "timers p h = Some \<lparr>delay = 50, repeating = True, callback = TypeWriter\<rparr>"
    and i: "typing_i p < length (typing_text p)" by (simp_all add: typing_at_def)
  have s: "step p (Fire h) =
      (update_subtitle (\<lambda>s. s\<lparr>textContent := textContent s @ [typing_text p ! typing_i p]\<rparr>) p)
        \<lparr>typing_i := Suc (typing_i p)\<rparr>"
    using t i by (simp add: run_callback_def typeWriter_def settle_def)
  from assms show ?thesis
    unfolding s
    by (cases "subtitle p")
       (auto simp: typing_at_def update_subtitle_def is_child_def take_Suc_conv_app_nth)
qed

lemma typing_ticks:
  assumes "typing_at h b text 0 p"
  shows "k \<le> length text \<Longrightarrow> typing_at h b text k (run p (replicate k (Fire h)))"
proof (induction k)
  case 0
  with assms show ?case by (simp add: run_def)
next
  case (Suc k)
  then have "typing_at h b text k (run p (replicate k (Fire h)))" and "k < length text" by simp_all
  then have "typing_at h b text (Suc k) (step (run p (replicate k (Fire h))) (Fire h))"
    by (rule typing_tick)
  moreover have "run p (replicate (Suc k) (Fire h)) = step (run p (replicate k (Fire h))) (Fire h)"
    by (simp only: replicate_Suc [of k] replicate_append_same [symmetric] run_def foldl_append
          foldl_Cons foldl_Nil)
  ultimately show ?case by simp
qed

lemma typing_cleanup:
  assumes "typing_at h b text (length text) p"
  shows "cleanup_tick p (Fire h)" and "\<not> is_child b (step p (Fire h))"
    and "timers (step p (Fire h)) h = None"
proof -
  from assms have t: "timers p h = Some \<lparr>delay = 50, repeating = True, callback = TypeWriter\<rparr>"
    and i: "\<not> typing_i p < length (typing_text p)" and ti: "typingInterval p = Some h"
    and sb: "skipButton p = Some b" by (simp_all add: typing_at_def)
  from t i show "cleanup_tick p (Fire h)" by (simp add: cleanup_tick_def)
  have s: "step p (Fire h) =
      update_subtitle (\<lambda>s. s\<lparr>sub_aria_live := None\<rparr>)
        (detach_skip (Some b) (clearTimer (Some h) p))"
    using t i ti sb
    by (simp add: run_callback_def typeWriter_def removeSkipButton_returns and_then_def settle_def)
  show "\<not> is_child b (step p (Fire h))"
    unfolding s by (auto simp: update_subtitle_def detach_skip_def clearTimer_def log_effect_def is_child_def)
  show "timers (step p (Fire h)) h = None"
    unfolding s by (simp add: update_subtitle_def detach_skip_def clearTimer_def log_effect_def)
qed

lemma attached_iff_not_removed:
  "skip_counted p \<Longrightarrow> skipButton p = Some b \<Longrightarrow> is_child b p = (skip_removals p = 0)"
  by (auto simp: skip_counted_def skip_removals_def)

lemma run_Cons: "run p (e # es) = run (step p e) es"
  by (simp add: run_def)

lemma run_snoc: "run p (es @ [e]) = step (run p es) e"
  by (simp add: run_def)

section \<open>The claims\<close>

text \<open>
  \<^bold>\<open>C1.\<close>  On a page whose markers are one per section (every marker has a non-empty
  target id, no two markers share one), for every scroll offset
  \<open>updateActiveNavigation\<close> returns without an exception, keeps the markers and
  their targets, and leaves at most one marker active: a marker is active
  exactly when its target is the last section, in the order header, about,
  skills, projects, experience, that exists and whose top minus 200 is at most
  the scroll offset.  If no section qualifies, no marker is active.
\<close>

theorem updateActiveNavigation_marks_last_qualifying:
  assumes "markers_one_per_section (dots p)"
  shows "\<exists>p'. updateActiveNavigation p = Returns p'
           \<and> map data_section (dots p') = map data_section (dots p)
           \<and> length (filter active (dots p')) \<le> 1
           \<and> (\<forall>d \<in> set (dots p').
                 active d = (\<exists>s. last_qualifying p = Some s \<and> data_section d = Some s))
           \<and> (last_qualifying p = None \<longrightarrow> filter active (dots p') = [])"
proof -
  let ?cur = "current_section p"
  let ?p' = "p\<lparr>dots := map (mark ?cur) (dots p)\<rparr>"
  from assms have targets: "list_all has_target (dots p)"
    and dist: "distinct (map data_section (dots p))"
    by (simp_all add: markers_one_per_section_def)
  from targets have some: "list_all (\<lambda>d. data_section d \<noteq> None) (dots p)"
    by (auto simp: list_all_iff has_target_def split: option.splits)
  have ret: "updateActiveNavigation p = Returns ?p'"
    by (simp add: updateActiveNavigation_def forEach_update_dot [OF some])
  have same: "map data_section (dots ?p') = map data_section (dots p)"
    by (simp add: mark_def comp_def)
  have one: "length (filter active (dots ?p')) \<le> 1"
    using filter_distinct_key [OF dist, of "Some ?cur"] by (simp add: filter_active_mark)
  have which: "active d = (\<exists>s. last_qualifying p = Some s \<and> data_section d = Some s)"
    if "d \<in> set (dots ?p')" for d
  proof -
    from that obtain d0 where d0: "d0 \<in> set (dots p)" and d: "d = mark ?cur d0" by auto
    from targets d0 have "has_target d0" by (simp add: list_all_iff)
    then obtain t where t: "data_section d0 = Some t" "t \<noteq> []"
      by (auto simp: has_target_def split: option.splits)
    show ?thesis
      using t last_qualifying_nonempty [of p]
      by (cases "last_qualifying p") (auto simp: d mark_def current_section_last_qualifying)
  qed
  have none: "last_qualifying p = None \<longrightarrow> filter active (dots ?p') = []"
    using which by (auto simp: filter_empty_conv)
  show ?thesis
  proof (intro exI conjI ballI)
    show "updateActiveNavigation p = Returns ?p'" by (rule ret)
    show "map data_section (dots ?p') = map data_section (dots p)" by (rule same)
    show "length (filter active (dots ?p')) \<le> 1" by (rule one)
    show "active d = (\<exists>s. last_qualifying p = Some s \<and> data_section d = Some s)"
      if "d \<in> set (dots ?p')" for d using that by (rule which)
    show "last_qualifying p = None \<longrightarrow> filter active (dots ?p') = []" by (rule none)
  qed
qed

theorem updateActiveNavigation_marks_last_qualifying_witness:
  "markers_one_per_section (dots (portfolio False))
   \<and> last_qualifying (portfolio False) = Some ''about''
   \<and> (\<exists>p'. updateActiveNavigation (portfolio False) = Returns p'
         \<and> map data_section (dots p') = map data_section (dots (portfolio False))
         \<and> length (filter active (dots p')) \<le> 1
         \<and> (\<forall>d \<in> set (dots p').
               active d = (\<exists>s. last_qualifying (portfolio False) = Some s \<and> data_section d = Some s))
         \<and> (last_qualifying (portfolio False) = None \<longrightarrow> filter active (dots p') = []))
   \<and> map active (dots (settle (updateActiveNavigation (portfolio False)))) = [False, True, False]"
proof -
  have h: "markers_one_per_section (dots (portfolio False))"
    by (simp add: markers_one_per_section_def has_target_def example_defs)
  have l: "last_qualifying (portfolio False) = Some ''about''"
    by (simp add: last_qualifying_def qualifies_def getElementById_def js_string_def section_ids_def
          example_defs)
  have a: "map active (dots (settle (updateActiveNavigation (portfolio False)))) = [False, True, False]"
    by code_simp
  from h l a updateActiveNavigation_marks_last_qualifying [OF h] show ?thesis by blast
qed

text \<open>
  \<^bold>\<open>C2.\<close>  The page is loaded with the motion preference set.  The subtitle keeps
  its full text and no timer is started, but line 149 has already created the
  skip button: it is a child of the body, no click handler is attached to it,
  and it stays a child of the body under every sequence of events.
\<close>

theorem reduced_motion_creates_skip_button:
  "body (load (portfolio True)) = [(0, skip_link_elem), (1, skip_button_elem)]
   \<and> skipButton (load (portfolio True)) = Some 1
   \<and> subtitle (load (portfolio True)) = Some \<lparr>textContent = ''Hi'', sub_aria_live = None\<rparr>
   \<and> timers (load (portfolio True)) = Map.empty
   \<and> \<not> skip_listener (load (portfolio True))
   \<and> is_child 1 (run (load (portfolio True)) evs)"
proof -
  have "body (load (portfolio True)) = [(0, skip_link_elem), (1, skip_button_elem)]
   \<and> skipButton (load (portfolio True)) = Some 1
   \<and> subtitle (load (portfolio True)) = Some \<lparr>textContent = ''Hi'', sub_aria_live = None\<rparr>
   \<and> \<not> skip_listener (load (portfolio True))"
    by code_simp
  moreover have "timers (load (portfolio True)) = Map.empty"
    unfolding portfolio_def by (rule load_reduced_timers)
  moreover have "is_child 1 (run (load (portfolio True)) evs)"
  proof -
    have "loaded_listener (settle (script_top (portfolio True)))" by code_simp
    with dormant_button_load [of _ _ _ "\<lparr>textContent = ''Hi'', sub_aria_live = None\<rparr>"]
    have "dormant_button 1 (load (portfolio True))" unfolding portfolio_def by blast
    moreover have "page_inv (load (portfolio True))"
      unfolding portfolio_def by (rule page_inv_load)
    ultimately have "dormant_button 1 (run (load (portfolio True)) evs)"
      by (intro dormant_button_run)
    then show ?thesis by (simp add: dormant_button_def)
  qed
  ultimately show ?thesis by simp
qed

text \<open>
  \<^bold>\<open>C3.\<close>  The page is loaded without the motion preference and the skip control
  is activated before the start-up timer (handle 1) has fired.  The handler
  clears nothing, since \<open>typingInterval\<close> is still undefined: the start-up timer
  stays pending, fires, and starts the interval (handle 2), whose ticks append
  the source text to the full text already shown.
\<close>

theorem skip_before_start_doubles_text:
  "timers (step (load (portfolio False)) Click_skip) 1 =
     Some \<lparr>delay = 1000, repeating = False, callback = StartTyping\<rparr>
   \<and> subtitle (step (load (portfolio False)) Click_skip) =
       Some \<lparr>textContent = ''Hi'', sub_aria_live = None\<rparr>
   \<and> timers (run (load (portfolio False)) [Click_skip, Fire 1]) 2 =
       Some \<lparr>delay = 50, repeating = True, callback = TypeWriter\<rparr>
   \<and> subtitle (run (load (portfolio False)) [Click_skip, Fire 1, Fire 2]) =
       Some \<lparr>textContent = ''HiH'', sub_aria_live = None\<rparr>
   \<and> subtitle (run (load (portfolio False)) [Click_skip, Fire 1, Fire 2, Fire 2, Fire 2]) =
       Some \<lparr>textContent = ''HiHi'', sub_aria_live = None\<rparr>"
  by code_simp

text \<open>
  \<^bold>\<open>C4\<close> (amended).  Without the motion preference, leave and blur set the
  transform to \<open>translateY(0) rotateX(0deg)\<close> whatever it was before enter or
  focus: the state before enter is restored exactly when it was that value
  already, as it is after any earlier leave or blur.  With the motion
  preference, none of the four handlers alters the transform.
\<close>

theorem card_transform_amended:
  "transform (mouseleave False (mouseenter False c)) = ''translateY(0) rotateX(0deg)''
   \<and> transform (blur_card False (focus_card False c)) = ''translateY(0) rotateX(0deg)''
   \<and> transform (blur_card False (mouseenter False c)) = ''translateY(0) rotateX(0deg)''
   \<and> transform (mouseleave False (focus_card False c)) = ''translateY(0) rotateX(0deg)''
   \<and> (transform (mouseleave False (mouseenter False c)) = transform c) =
       (transform c = ''translateY(0) rotateX(0deg)'')
   \<and> (transform (blur_card False (focus_card False c)) = transform c) =
       (transform c = ''translateY(0) rotateX(0deg)'')
   \<and> transform (mouseenter True c) = transform c
   \<and> transform (mouseleave True c) = transform c
   \<and> transform (focus_card True c) = transform c
   \<and> transform (blur_card True c) = transform c"
  by (auto simp: mouseleave_def mouseenter_def focus_card_def blur_card_def)

text \<open>A card with no inline transform, or with the inline transform \<open>scale(1.1)\<close>,
  does not get its transform back.\<close>

theorem card_round_trip_counterexample:
  "transform plain_card = []
   \<and> transform (mouseleave False (mouseenter False plain_card)) = ''translateY(0) rotateX(0deg)''
   \<and> transform (mouseleave False (mouseenter False plain_card)) \<noteq> transform plain_card
   \<and> transform (blur_card False (focus_card False (plain_card\<lparr>transform := ''scale(1.1)''\<rparr>)))
       \<noteq> transform (plain_card\<lparr>transform := ''scale(1.1)''\<rparr>)"
  by (simp add: mouseleave_def mouseenter_def focus_card_def blur_card_def plain_card_def)

text \<open>
  \<^bold>\<open>C5\<close> (amended).  On a page loaded with animation allowed, a subtitle and a
  target id on every marker: start-up creates the skip button once, as the node
  1 of the body, with its handler attached, and has not removed it.  In every
  state \<open>p\<close> the page reaches, the button is still that node, a click on it
  reaches the skip handler, and the button has been removed at most once.  A
  step removes it exactly when it runs the skip handler or is the first tick of
  the typing timer after the last character, and the button was still
  attached; after such a step the number of removals is 1, and every other step
  leaves the number and the button as they were.  In the state \<open>q\<close> where the
  typing timer has emitted the last character (the number of emitted characters
  has reached the length and the subtitle shows the whole text), the button is
  still attached and has not been removed; the next tick of the timer removes
  it.
\<close>

theorem skip_control_removal_amended:
  assumes "list_all (\<lambda>d. data_section d \<noteq> None) ds"
  shows "(let p0 = load (document False ds secs cs (Some sub) y);
              text = textContent sub;
              p = run p0 evs;
              q = run p0 (Fire 1 # replicate (length text) (Fire 2))
          in body p0 = [(0, skip_link_elem), (1, skip_button_elem)]
           \<and> skipButton p0 = Some 1 \<and> skip_listener p0 \<and> skip_removals p0 = 0
           \<and> skipButton p = Some 1 \<and> skip_activated p Click_skip
           \<and> skip_removals p \<le> 1
           \<and> skip_removals (step p ev) =
               (if skip_activated p ev \<or> cleanup_tick p ev then 1 else skip_removals p)
           \<and> is_child 1 (step p ev) =
               (is_child 1 p \<and> \<not> skip_activated p ev \<and> \<not> cleanup_tick p ev)
           \<and> map_option textContent (subtitle q) = Some text \<and> typing_i q = length text
           \<and> is_child 1 q \<and> skip_removals q = 0
           \<and> cleanup_tick q (Fire 2)
           \<and> \<not> is_child 1 (step q (Fire 2)) \<and> skip_removals (step q (Fire 2)) = 1)"
proof -
  define p0 where "p0 = load (document False ds secs cs (Some sub) y)"
  define tx where "tx = textContent sub"
  define p where "p = run p0 evs"
  define q where "q = run p0 (Fire 1 # replicate (length tx) (Fire 2))"
  note l = load_animated [OF assms, of secs cs sub y, folded p0_def]
  have inv: "page_inv (run p0 es)" for es unfolding p0_def by (rule page_inv_reachable)
  have i0: "page_inv p0" using inv [of "[]"] by (simp add: run_def)
  have ready: "skip_ready 1 (run p0 es)" for es
    by (rule skip_ready_run) (simp add: skip_ready_def l)
  have sb: "skipButton (run p0 es) = Some 1" for es using ready [of es] by (simp add: skip_ready_def)
  have att: "is_child 1 (run p0 es) = (skip_removals (run p0 es) = 0)" for es
    using inv [of es] sb [of es] by (intro attached_iff_not_removed) (simp_all add: page_inv_def)
  have c0: "is_child 1 p0" by (simp add: is_child_def l)
  have z: "skip_removals p0 = 0" using att [of "[]"] c0 by (simp add: run_def)
  have pi: "page_inv p" unfolding p_def by (rule inv)
  have 1: "skipButton p = Some 1" unfolding p_def by (rule sb)
  have 2: "skip_activated p Click_skip"
    using ready [of evs] by (simp add: skip_activated_def skip_ready_def p_def)
  have 3: "skip_removals p \<le> 1" using pi by (intro skip_removals_le) (simp add: page_inv_def)
  have 4: "skip_removals (step p ev) =
      (if skip_activated p ev \<or> cleanup_tick p ev then 1 else skip_removals p)"
    using pi by (rule skip_removals_step)
  have "is_child 1 (step p ev) = (skip_removals (step p ev) = 0)"
    using att [of "evs @ [ev]"] by (simp add: run_snoc p_def)
  moreover have "is_child 1 p = (skip_removals p = 0)" unfolding p_def by (rule att)
  ultimately have 5: "is_child 1 (step p ev) =
      (is_child 1 p \<and> \<not> skip_activated p ev \<and> \<not> cleanup_tick p ev)"
    using 4 by auto
  have t1: "timers p0 1 = Some \<lparr>delay = 1000, repeating = False, callback = StartTyping\<rparr>"
    by (simp add: l(4))
  have s0: "map_option textContent (subtitle p0) = Some []" by (simp add: l(9))
  have "typing_at (next_handle p0) 1 (typing_text p0) 0 (step p0 (Fire 1))"
    using t1 l(2) c0 l(7) s0 by (rule typing_starts)
  then have "typing_at 2 1 tx 0 (step p0 (Fire 1))" by (simp add: l tx_def)
  then have "typing_at 2 1 tx (length tx) (run (step p0 (Fire 1)) (replicate (length tx) (Fire 2)))"
    by (rule typing_ticks) simp
  then have ta: "typing_at 2 1 tx (length tx) q" by (simp add: q_def run_Cons)
  then have 6: "map_option textContent (subtitle q) = Some tx" "typing_i q = length tx"
    "is_child 1 q" by (simp_all add: typing_at_def)
  have 7: "skip_removals q = 0" using att [of "Fire 1 # replicate (length tx) (Fire 2)"] 6(3)
    by (simp add: q_def)
  from ta have 8: "cleanup_tick q (Fire 2)" "\<not> is_child 1 (step q (Fire 2))"
    by (rule typing_cleanup)+
  have "skip_removals (step q (Fire 2)) =
      (if skip_activated q (Fire 2) \<or> cleanup_tick q (Fire 2) then 1 else skip_removals q)"
    unfolding q_def by (rule skip_removals_step [OF inv])
  with 8 have 9: "skip_removals (step q (Fire 2)) = 1" by simp
  show ?thesis
    unfolding Let_def p0_def [symmetric] tx_def [symmetric] p_def [symmetric] q_def [symmetric]
    using l(1,2,3) z 1 2 3 4 5 6 7 8 9 by blast
qed

theorem skip_control_removal_amended_witness:
  "list_all (\<lambda>d. data_section d \<noteq> None)
     [marker (Some ''header''), marker (Some ''about''), marker (Some ''skills'')]
   \<and> (let p0 = load (portfolio False);
            text = textContent \<lparr>textContent = ''Hi'', sub_aria_live = None\<rparr>;
            p = run p0 [Fire 1, Fire 2];
            q = run p0 (Fire 1 # replicate (length text) (Fire 2))
        in body p0 = [(0, skip_link_elem), (1, skip_button_elem)]
         \<and> skipButton p0 = Some 1 \<and> skip_listener p0 \<and> skip_removals p0 = 0
         \<and> skipButton p = Some 1 \<and> skip_activated p Click_skip
         \<and> skip_removals p \<le> 1
         \<and> skip_removals (step p Click_skip) =
             (if skip_activated p Click_skip \<or> cleanup_tick p Click_skip then 1
              else skip_removals p)
         \<and> is_child 1 (step p Click_skip) =
             (is_child 1 p \<and> \<not> skip_activated p Click_skip \<and> \<not> cleanup_tick p Click_skip)
         \<and> map_option textContent (subtitle q) = Some text \<and> typing_i q = length text
         \<and> is_child 1 q \<and> skip_removals q = 0
         \<and> cleanup_tick q (Fire 2)
         \<and> \<not> is_child 1 (step q (Fire 2)) \<and> skip_removals (step q (Fire 2)) = 1)"
proof -
  have h: "list_all (\<lambda>d. data_section d \<noteq> None)
     [marker (Some ''header''), marker (Some ''about''), marker (Some ''skills'')]"
    by (simp add: marker_def)
  note t = skip_control_removal_amended [OF h,
      of "[(''header'', region 0), (''about'', region 600), (''skills'', region 1200)]"
         "[plain_card]" "\<lparr>textContent = ''Hi'', sub_aria_live = None\<rparr>" 450
         "[Fire 1, Fire 2]" Click_skip, folded portfolio_def]
  from h t show ?thesis by (rule conjI)
qed

text \<open>With the text \<open>Hi\<close>: the second tick of the typing timer emits the last
  character, so that the number of emitted characters reaches the length and
  the subtitle shows \<open>Hi\<close>; the skip button is then still a child of the body
  and has not been removed.  It is removed at the third tick.\<close>

theorem removal_not_on_completion_counterexample:
  "typing_text (run (load (portfolio False)) [Fire 1, Fire 2, Fire 2]) = ''Hi''
   \<and> typing_i (run (load (portfolio False)) [Fire 1, Fire 2]) = 1
   \<and> typing_i (run (load (portfolio False)) [Fire 1, Fire 2, Fire 2]) = length ''Hi''
   \<and> map_option textContent (subtitle (run (load (portfolio False)) [Fire 1, Fire 2, Fire 2]))
       = Some ''Hi''
   \<and> is_child 1 (run (load (portfolio False)) [Fire 1, Fire 2, Fire 2])
   \<and> skip_removals (run (load (portfolio False)) [Fire 1, Fire 2, Fire 2]) = 0
   \<and> skip_removals (run (load (portfolio False)) [Fire 1, Fire 2, Fire 2, Fire 2]) = 1"
  by code_simp

text \<open>
  \<^bold>\<open>C6\<close> (amended).  \<open>removeSkipButton\<close> never raises, and removing the skip button
  a second time changes nothing.  The timer of an announcement calls the bare
  \<open>removeChild\<close>, which raises \<open>NotFoundError\<close> exactly when the element is not a
  child of the body: that removal is not guarded.  In the runs of a loaded page
  no \<open>NotFoundError\<close> is ever raised, since each announcement is removed by its
  own one-shot timer only.
\<close>

theorem removal_guard_amended:
  "(\<exists>q. removeSkipButton b p = Returns q)
   \<and> and_then (removeSkipButton b p) (removeSkipButton b) = removeSkipButton b p
   \<and> run_callback (RemoveAnnouncement n) p = removeChild n p
   \<and> (removeChild n p = Throws NotFoundError p) = (\<not> is_child n p)
   \<and> NotFoundError \<notin> set (uncaught (run (load (document m ds secs cs sub y)) evs))"
proof -
  have 1: "\<exists>q. removeSkipButton b p = Returns q" by (simp add: removeSkipButton_returns)
  have "detach_skip b (detach_skip b p) = detach_skip b p"
    by (cases b) (auto simp: detach_skip_def log_effect_def is_child_def)
  then have 2: "and_then (removeSkipButton b p) (removeSkipButton b) = removeSkipButton b p"
    by (simp add: removeSkipButton_returns and_then_def)
  have 3: "run_callback (RemoveAnnouncement n) p = removeChild n p" by (simp add: run_callback_def)
  have 4: "(removeChild n p = Throws NotFoundError p) = (\<not> is_child n p)"
    by (simp add: removeChild_def)
  have "page_inv (run (load (document m ds secs cs sub y)) evs)" by (rule page_inv_reachable)
  then have 5: "NotFoundError \<notin> set (uncaught (run (load (document m ds secs cs sub y)) evs))"
    by (simp add: page_inv_def)
  from 1 2 3 4 5 show ?thesis by blast
qed

text \<open>Running the removal of an announcement twice raises; removing the skip
  button twice does not.\<close>

theorem unguarded_announcement_removal_counterexample:
  "uncaught (settle (and_then
       (run_callback (RemoveAnnouncement 0) (announceToScreenReader ''hello'' (portfolio False)))
       (run_callback (RemoveAnnouncement 0)))) = [NotFoundError]
   \<and> uncaught (settle (and_then
       (removeSkipButton (Some 0) (appendChild skip_button_elem (portfolio False)))
       (removeSkipButton (Some 0)))) = []"
  by code_simp

text \<open>
  \<^bold>\<open>C7.\<close>  When the marker's target id identifies no element of the page,
  \<open>navigateToSection\<close> returns the page as it was: no announcement, no scroll, no
  focus, no timer.
\<close>

theorem navigate_missing_section_noop:
  assumes "data_section element = Some sectionId" and "getElementById p (Some sectionId) = None"
  shows "navigateToSection element p = p"
  using assms by (simp add: navigateToSection_def)

theorem navigate_missing_section_noop_witness:
  "data_section (marker (Some ''contact'')) = Some ''contact''
   \<and> getElementById (portfolio False) (Some ''contact'') = None
   \<and> navigateToSection (marker (Some ''contact'')) (portfolio False) = portfolio False"
proof -
  have a: "data_section (marker (Some ''contact'')) = Some ''contact''" by (simp add: marker_def)
  have b: "getElementById (portfolio False) (Some ''contact'') = None"
    by (simp add: getElementById_def js_string_def portfolio_def document_def)
  from a b navigate_missing_section_noop [OF a b] show ?thesis by simp
qed

text \<open>
  \<^bold>\<open>C8.\<close>  With the motion preference set, \<open>initParallaxEffect\<close> changes nothing,
  and in every state a page loaded with the preference reaches, under any
  sequence of events, no parallax scroll listener is attached, no animation
  frame is requested and the background position has never been written.
\<close>

theorem reduced_motion_parallax_never_updates:
  "initParallaxEffect (p\<lparr>prefersReducedMotion := True\<rparr>) = p\<lparr>prefersReducedMotion := True\<rparr>
   \<and> \<not> parallax_listener (run (load (document True ds secs cs sub y)) evs)
   \<and> frames (run (load (document True ds secs cs sub y)) evs) = []
   \<and> backgroundPosition (run (load (document True ds secs cs sub y)) evs) = None"
proof -
  have "parallax_off (run (load (document True ds secs cs sub y)) evs)"
    by (intro parallax_off_run parallax_off_load)
  then show ?thesis by (simp add: parallax_off_def initParallaxEffect_def)
qed

text \<open>
  \<^bold>\<open>C9.\<close>  In every state \<open>p\<close> a loaded page reaches, \<open>announceToScreenReader msg\<close>
  appends one new element whose text is \<open>msg\<close> and registers a one-shot timer of
  1000 ms for it; when that timer fires the body is what it was before the
  call, the timer is gone and nothing is raised.  A second announcement made
  in between gets an element and a timer of its own: either timer removes its
  own element and leaves the other, and after both, in either order, the body
  is what it was.  Whatever other events come first (\<open>evs2\<close> without the firing of
  the announcement's timer), the element is still a child of the body; once its
  timer has fired the element is no child of the body, and stays so under any
  further events \<open>evs3\<close>.  (The model records the delay of a timer; it has no
  clock.)
\<close>

theorem announcement_lifecycle:
  "(let p = run (load (document m ds secs cs sub y)) evs;
        n = next_node p; h = next_handle p;
        p1 = announceToScreenReader msg p;
        p2 = announceToScreenReader msg2 p1
    in body p1 = body p @ [(n, announcement msg)]
     \<and> elem_text (announcement msg) = msg
     \<and> timers p1 h = Some \<lparr>delay = 1000, repeating = False, callback = RemoveAnnouncement n\<rparr>
     \<and> body (step p1 (Fire h)) = body p
     \<and> timers (step p1 (Fire h)) h = None
     \<and> uncaught (step p1 (Fire h)) = uncaught p
     \<and> body p2 = body p @ [(n, announcement msg), (Suc n, announcement msg2)]
     \<and> body (step p2 (Fire h)) = body p @ [(Suc n, announcement msg2)]
     \<and> body (step p2 (Fire (Suc h))) = body p @ [(n, announcement msg)]
     \<and> body (run p2 [Fire h, Fire (Suc h)]) = body p
     \<and> body (run p2 [Fire (Suc h), Fire h]) = body p
     \<and> (n, announcement msg) \<in> set (body (run p1 (filter (\<lambda>e. e \<noteq> Fire h) evs2)))
     \<and> \<not> is_child n (run p1 (filter (\<lambda>e. e \<noteq> Fire h) evs2 @ Fire h # evs3)))"
proof -
  define p where "p = run (load (document m ds secs cs sub y)) evs"
  define n where "n = next_node p"
  define h where "h = next_handle p"
  define p1 where "p1 = announceToScreenReader msg p"
  define p2 where "p2 = announceToScreenReader msg2 p1"
  have i: "page_inv p" unfolding p_def by (rule page_inv_reachable)
  then have f: "fresh_ids p" by (simp add: page_inv_def)
  have hf: "handles_fresh p" unfolding p_def by (rule handles_fresh_reachable)
  have r4: "(n, announcement msg) \<in> set (body (run p1 (filter (\<lambda>e. e \<noteq> Fire h) evs2)))"
    "\<not> is_child n (run p1 (filter (\<lambda>e. e \<noteq> Fire h) evs2 @ Fire h # evs3))"
    unfolding p1_def n_def h_def using announcement_stays_until_fired [OF i hf] by blast+
  have keep: "filter (\<lambda>c. fst c \<noteq> n) (body p) = body p"
    "filter (\<lambda>c. fst c \<noteq> Suc n) (body p) = body p"
    unfolding n_def using f by (rule filter_fresh, rule filter_fresh_Suc)
  have b1: "body p1 = body p @ [(n, announcement msg)]"
    by (simp add: p1_def n_def announce_fields)
  have t1: "timers p1 h = Some \<lparr>delay = 1000, repeating = False, callback = RemoveAnnouncement n\<rparr>"
    by (simp add: p1_def n_def h_def announce_fields)
  have c1: "is_child n p1" by (simp add: is_child_def b1)
  have s1: "step p1 (Fire h) =
      p1\<lparr>timers := (timers p1)(h := None), body := filter (\<lambda>c. fst c \<noteq> n) (body p1),
         effects := effects p1 @ [RemoveChild n]\<rparr>"
    using t1 c1 by (rule fire_announcement)
  have b2: "body p2 = body p @ [(n, announcement msg), (Suc n, announcement msg2)]"
    by (simp add: p2_def p1_def n_def announce_fields)
  have t2: "timers p2 h = Some \<lparr>delay = 1000, repeating = False, callback = RemoveAnnouncement n\<rparr>"
    "timers p2 (Suc h) =
       Some \<lparr>delay = 1000, repeating = False, callback = RemoveAnnouncement (Suc n)\<rparr>"
    by (simp_all add: p2_def p1_def n_def h_def announce_fields)
  have c2: "is_child n p2" "is_child (Suc n) p2" by (simp_all add: is_child_def b2)
  have s2: "step p2 (Fire h) =
      p2\<lparr>timers := (timers p2)(h := None), body := filter (\<lambda>c. fst c \<noteq> n) (body p2),
         effects := effects p2 @ [RemoveChild n]\<rparr>"
    using t2(1) c2(1) by (rule fire_announcement)
  have s2': "step p2 (Fire (Suc h)) =
      p2\<lparr>timers := (timers p2)(Suc h := None), body := filter (\<lambda>c. fst c \<noteq> Suc n) (body p2),
         effects := effects p2 @ [RemoveChild (Suc n)]\<rparr>"
    using t2(2) c2(2) by (rule fire_announcement)
  have s3: "body (step (step p2 (Fire h)) (Fire (Suc h))) = body p"
  proof -
    define q where "q = step p2 (Fire h)"
    have q: "q = p2\<lparr>timers := (timers p2)(h := None), body := filter (\<lambda>c. fst c \<noteq> n) (body p2),
         effects := effects p2 @ [RemoveChild n]\<rparr>"
      unfolding q_def by (rule s2)
    have "timers q (Suc h) =
        Some \<lparr>delay = 1000, repeating = False, callback = RemoveAnnouncement (Suc n)\<rparr>"
      by (simp add: q t2)
    moreover have "is_child (Suc n) q" by (simp add: q is_child_def b2 keep)
    ultimately have "step q (Fire (Suc h)) =
        q\<lparr>timers := (timers q)(Suc h := None),
          body := filter (\<lambda>c. fst c \<noteq> Suc n) (body q),
          effects := effects q @ [RemoveChild (Suc n)]\<rparr>"
      by (rule fire_announcement)
    then have "body (step q (Fire (Suc h))) = body p" by (simp add: q b2 keep)
    then show ?thesis by (simp only: q_def)
  qed
  have s3': "body (step (step p2 (Fire (Suc h))) (Fire h)) = body p"
  proof -
    define q where "q = step p2 (Fire (Suc h))"
    have q: "q = p2\<lparr>timers := (timers p2)(Suc h := None),
         body := filter (\<lambda>c. fst c \<noteq> Suc n) (body p2),
         effects := effects p2 @ [RemoveChild (Suc n)]\<rparr>"
      unfolding q_def by (rule s2')
    have "timers q h =
        Some \<lparr>delay = 1000, repeating = False, callback = RemoveAnnouncement n\<rparr>"
      by (simp add: q t2)
    moreover have "is_child n q" by (simp add: q is_child_def b2 keep)
    ultimately have "step q (Fire h) =
        q\<lparr>timers := (timers q)(h := None), body := filter (\<lambda>c. fst c \<noteq> n) (body q),
          effects := effects q @ [RemoveChild n]\<rparr>"
      by (rule fire_announcement)
    then have "body (step q (Fire h)) = body p" by (simp add: q b2 keep)
    then show ?thesis by (simp only: q_def)
  qed
  have u1: "uncaught p1 = uncaught p" by (simp add: p1_def announce_fields)
  have r1: "body (step p1 (Fire h)) = body p" "timers (step p1 (Fire h)) h = None"
    "uncaught (step p1 (Fire h)) = uncaught p"
    by (simp_all add: s1 b1 keep u1 del: step.simps)
  have r2: "body (step p2 (Fire h)) = body p @ [(Suc n, announcement msg2)]"
    "body (step p2 (Fire (Suc h))) = body p @ [(n, announcement msg)]"
    by (simp_all add: s2 s2' b2 keep del: step.simps)
  have r3: "body (run p2 [Fire h, Fire (Suc h)]) = body p"
    "body (run p2 [Fire (Suc h), Fire h]) = body p"
    using s3 s3' by (simp_all add: run_def del: step.simps)
  have r0: "elem_text (announcement msg) = msg" by (simp add: announcement_def)
  show ?thesis
    unfolding Let_def p_def [symmetric] n_def [symmetric] h_def [symmetric]
      p1_def [symmetric] p2_def [symmetric]
    using b1 r0 t1 r1 b2 r2 r3 r4 by blast
qed



end
